theory Spec2Isabelle
  imports Complex_Main "HOL-Library.Sublist" "HOL-Library.Log_Nat"
begin

section \<open>Values and exceptions\<close>

text \<open>
  Both programs (\<^verbatim>\<open>stable-version/start.py\<close> and \<^verbatim>\<open>legacy-version/start.py\<close>)
  work on decoded JSON. A JSON object is the Python \<^verbatim>\<open>dict\<close> it decodes to, kept as
  an association list in insertion order and read with \<open>map_of\<close>; the keys of a decoded
  object are distinct. \<open>JFloat\<close> carries the value of a finite double
  (\<^verbatim>\<open>NaN\<close> and the infinities, which Python's decoder also accepts, are not
  represented). Strings are byte lists.
\<close>

datatype json =
    JNull
  | JBool bool
  | JInt int
  | JFloat rat
  | JStr string
  | JArr "json list"
  | JObj "(string \<times> json) list"

text \<open>
  The Python exceptions the modelled code can meet. \<open>SchemaError\<close> is the error class
  the design document names for a page without listing container; no function of
  either program constructs it.
\<close>

datatype exn =
    KeyError string
  | TypeError
  | IndexError
  | AttributeError
  | RecursionError
  | OverflowError
  | ValueError
  | ConnectTimeout
  | ReadTimeout
  | ConnectionError
  | JSONDecodeError
  | SchemaError

text \<open>\<^verbatim>\<open>obj[key]\<close> for a string key.\<close>

fun getitem :: "json \<Rightarrow> string \<Rightarrow> exn + json" where
  "getitem (JObj kvs) k = (case map_of kvs k of None \<Rightarrow> Inl (KeyError k) | Some v \<Rightarrow> Inr v)"
| "getitem _ k = Inl TypeError"

text \<open>\<^verbatim>\<open>for x in obj\<close>: a list gives its elements, a dict its keys, a string its
  characters; anything else is not iterable.\<close>

fun py_iter :: "json \<Rightarrow> exn + json list" where
  "py_iter (JArr xs) = Inr xs"
| "py_iter (JObj kvs) = Inr (map JStr (remdups (map fst kvs)))"
| "py_iter (JStr s) = Inr (map (\<lambda>c. JStr [c]) s)"
| "py_iter _ = Inl TypeError"

section \<open>Flattening the catalogue\<close>

text \<open>An entry of the flattened catalogue: the dict with keys \<^verbatim>\<open>name\<close>,
  \<^verbatim>\<open>url\<close>, \<^verbatim>\<open>shard\<close>, \<^verbatim>\<open>query\<close> that both programs append.\<close>

record flat_category =
  cat_name :: json
  cat_url :: json
  cat_shard :: json
  cat_query :: json

fun max_list :: "nat list \<Rightarrow> nat" where
  "max_list [] = 0"
| "max_list (x # xs) = max x (max_list xs)"



lemma max_list_le: "(\<And>x. x \<in> set xs \<Longrightarrow> x \<le> n) \<Longrightarrow> max_list xs \<le> n"
  by (induction xs) auto


text \<open>
  Both flatteners are recursive Python methods, and the interpreter allows only so
  many calls within one another (\<^verbatim>\<open>sys.getrecursionlimit()\<close>, 1000 unless changed,
  less the calls already open): a call beyond that raises \<^verbatim>\<open>RecursionError\<close>.
  The first argument \<open>frames\<close> of a flattener is the number of calls the interpreter
  still allows when the method is called; each call of the method takes one.
\<close>

subsection \<open>Stable version: \<^verbatim>\<open>Parser.traverse_json\<close>\<close>

text \<open>
  \<^verbatim>\<open>
  def traverse_json(self, parent_category: list, flattened_catalogue: list) -> None:
      for category in parent_category:
          try:
              flattened_catalogue.append({
                  'name': category['name'], 'url': category['url'],
                  'shard': category['shard'], 'query': category['query']})
          except KeyError:
              continue
          if 'childs' in category:
              self.traverse_json(category['childs'], flattened_catalogue)
  \<close>
  The list that the Python code extends in place is passed in and returned. A
  \<^verbatim>\<open>category\<close> that is not a dict raises \<^verbatim>\<open>TypeError\<close> at
  \<^verbatim>\<open>category['name']\<close>, which \<^verbatim>\<open>except KeyError\<close> does not catch; a dict
  that lacks one of the four keys raises \<^verbatim>\<open>KeyError\<close>, and \<^verbatim>\<open>continue\<close>
  goes to the next sibling without looking at \<^verbatim>\<open>childs\<close>. The recursive call
  stands outside the \<^verbatim>\<open>try\<close>, so its \<^verbatim>\<open>RecursionError\<close> leaves the method.
  \<open>traverse_json\<close> is the method, \<open>traverse_categories\<close> its \<^verbatim>\<open>for\<close> loop over
  the elements not yet visited, with the calls still allowed inside this one.
\<close>

function traverse_json :: "nat \<Rightarrow> json \<Rightarrow> flat_category list \<Rightarrow> exn + flat_category list"
  and traverse_categories ::
    "nat \<Rightarrow> json list \<Rightarrow> flat_category list \<Rightarrow> exn + flat_category list"
where
  "traverse_json 0 parent_category flattened_catalogue = Inl RecursionError"
| "traverse_json (Suc frames) parent_category flattened_catalogue =
     (case py_iter parent_category of
        Inl e \<Rightarrow> Inl e
      | Inr categories \<Rightarrow> traverse_categories frames categories flattened_catalogue)"
| "traverse_categories frames [] flattened_catalogue = Inr flattened_catalogue"
| "traverse_categories frames (category # rest) flattened_catalogue =
     (case category of
        JObj kvs \<Rightarrow>
          (case (map_of kvs ''name'', map_of kvs ''url'', map_of kvs ''shard'', map_of kvs ''query'') of
             (Some n, Some u, Some s, Some q) \<Rightarrow>
               (let appended = flattened_catalogue @
                      [\<lparr>cat_name = n, cat_url = u, cat_shard = s, cat_query = q\<rparr>]
                in case map_of kvs ''childs'' of
                     None \<Rightarrow> traverse_categories frames rest appended
                   | Some childs \<Rightarrow>
                       (case traverse_json frames childs appended of
                          Inl e \<Rightarrow> Inl e
                        | Inr appended' \<Rightarrow> traverse_categories frames rest appended'))
           | _ \<Rightarrow> traverse_categories frames rest flattened_catalogue)
      | _ \<Rightarrow> Inl TypeError)"
  by pat_completeness auto
termination
  by (relation "inv_image (less_than <*lex*> less_than <*lex*> less_than)
        (\<lambda>x. case x of Inl (frames, _, _) \<Rightarrow> (frames, 0::nat, 0::nat)
                       | Inr (frames, cs, _) \<Rightarrow> (frames, 1, length cs))")
     auto

subsection \<open>Legacy version: \<^verbatim>\<open>Parser.extract_category_data\<close>\<close>

text \<open>\<^verbatim>\<open>d.get(key)\<close>, which is \<^verbatim>\<open>None\<close> for a missing key.\<close>

definition dict_get :: "(string \<times> json) list \<Rightarrow> string \<Rightarrow> json" where
  "dict_get kvs k = (case map_of kvs k of None \<Rightarrow> JNull | Some v \<Rightarrow> v)"

text \<open>
  \<^verbatim>\<open>
  def extract_category_data(self, catalog: dict) -> list:
      categories = []
      if isinstance(catalog, dict) and 'childs' not in catalog:
          categories.append({'name': catalog['name'], 'shard': catalog.get('shard', None),
                             'url': catalog['url'], 'query': catalog.get('query', None)})
      elif isinstance(catalog, dict):
          categories.append({... the same entry ...})
          categories.extend(self.extract_category_data(catalog['childs']))
      else:
          for child in catalog:
              categories.extend(self.extract_category_data(child))
      return categories
  \<close>
  No exception is caught here. In the last branch a list is walked element by
  element; a string yields its one-character strings, each of which yields itself
  again, so that a non-empty string ends in \<^verbatim>\<open>RecursionError\<close>; a number, a
  boolean or \<^verbatim>\<open>None\<close> is not iterable. The method is called once for a list and
  once for each of its elements, so a level of the catalogue takes two calls.
  \<open>legacy_extend_children\<close> is the \<^verbatim>\<open>for\<close> loop of the last branch, with the calls
  still allowed inside this one.
\<close>

function legacy_extract_category_data :: "nat \<Rightarrow> json \<Rightarrow> exn + flat_category list"
  and legacy_extend_children :: "nat \<Rightarrow> json list \<Rightarrow> exn + flat_category list"
where
  "legacy_extract_category_data 0 catalog = Inl RecursionError"
| "legacy_extract_category_data (Suc frames) catalog =
     (case catalog of
        JObj kvs \<Rightarrow>
          (case map_of kvs ''name'' of
             None \<Rightarrow> Inl (KeyError ''name'')
           | Some n \<Rightarrow>
               (case map_of kvs ''url'' of
                  None \<Rightarrow> Inl (KeyError ''url'')
                | Some u \<Rightarrow>
                    (let entry = \<lparr>cat_name = n, cat_url = u, cat_shard = dict_get kvs ''shard'',
                                   cat_query = dict_get kvs ''query''\<rparr>
                     in case map_of kvs ''childs'' of
                          None \<Rightarrow> Inr [entry]
                        | Some childs \<Rightarrow>
                            (case legacy_extract_category_data frames childs of
                               Inl e \<Rightarrow> Inl e
                             | Inr sub \<Rightarrow> Inr (entry # sub)))))
      | _ \<Rightarrow>
          (case py_iter catalog of
             Inl e \<Rightarrow> Inl e
           | Inr children \<Rightarrow> legacy_extend_children frames children))"
| "legacy_extend_children frames [] = Inr []"
| "legacy_extend_children frames (child # rest) =
     (case legacy_extract_category_data frames child of
        Inl e \<Rightarrow> Inl e
      | Inr sub \<Rightarrow>
          (case legacy_extend_children frames rest of
             Inl e \<Rightarrow> Inl e
           | Inr others \<Rightarrow> Inr (sub @ others)))"
  by pat_completeness auto
termination
  by (relation "inv_image (less_than <*lex*> less_than <*lex*> less_than)
        (\<lambda>x. case x of Inl (frames, _) \<Rightarrow> (frames, 0::nat, 0::nat)
                       | Inr (frames, cs) \<Rightarrow> (frames, 1, length cs))")
     auto

subsection \<open>Catalogue trees and their pre-order\<close>














section \<open>Resolving the user's input\<close>

text \<open>
  \<^verbatim>\<open>s.split(sep)\<close> for a non-empty separator: the text is scanned from the left,
  every occurrence of \<open>sep\<close> found closes the current field and the scan goes on
  behind it. (Python refuses an empty separator; both programs pass a literal.)
\<close>

function py_split_from :: "string \<Rightarrow> string \<Rightarrow> string \<Rightarrow> string list" where
  "py_split_from sep field s =
     (if sep \<noteq> [] \<and> prefix sep s then field # py_split_from sep [] (drop (length sep) s)
      else case s of [] \<Rightarrow> [field] | c # cs \<Rightarrow> py_split_from sep (field @ [c]) cs)"
  by pat_completeness auto
termination
  by (relation "measure (\<lambda>(sep, field, s). length s)") (auto simp: prefix_def)

declare py_split_from.simps [simp del]

definition py_split :: "string \<Rightarrow> string \<Rightarrow> string list" where
  "py_split sep s = py_split_from sep [] s"

definition wb_prefix :: string where
  "wb_prefix = ''https://www.wildberries.ru''"

text \<open>\<^verbatim>\<open>user_input.split("https://www.wildberries.ru")[-1]\<close>, the expression both
  resolvers compare with a candidate's \<^verbatim>\<open>url\<close>.\<close>

definition url_part :: "string \<Rightarrow> string" where
  "url_part user_input = last (py_split wb_prefix user_input)"

text \<open>
  Stable version:
  \<^verbatim>\<open>
  def extract_category_data(self, catalogue: list, user_input: str) -> tuple:
      for category in catalogue:
          if user_input.split("https://www.wildberries.ru")[-1] == category['url'] \
                  or user_input == category['name']:
              return category['name'], category['shard'], category['query']
      return None
  \<close>
  A Python string equals a decoded JSON value exactly when the value is that string.
\<close>

fun extract_category_data :: "flat_category list \<Rightarrow> string \<Rightarrow> (json \<times> json \<times> json) option" where
  "extract_category_data [] user_input = None"
| "extract_category_data (category # catalogue) user_input =
     (if JStr (url_part user_input) = cat_url category \<or> JStr user_input = cat_name category
      then Some (cat_name category, cat_shard category, cat_query category)
      else extract_category_data catalogue user_input)"

text \<open>
  Legacy version:
  \<^verbatim>\<open>
  def find_category_in_catalog(self) -> dict:
      catalog_list = self.extract_category_data(self.catalog_data)
      for catalog in catalog_list:
          if catalog['url'] == self.url.split('https://www.wildberries.ru')[-1]:
              return catalog
      raise ValueError('Invalid URL or category not found in the catalog.')
  \<close>
\<close>

fun legacy_find_category :: "flat_category list \<Rightarrow> string \<Rightarrow> exn + flat_category" where
  "legacy_find_category [] url = Inl ValueError"
| "legacy_find_category (catalog # catalog_list) url =
     (if cat_url catalog = JStr (url_part url) then Inr catalog
      else legacy_find_category catalog_list url)"

definition legacy_find_category_in_catalog ::
  "nat \<Rightarrow> json \<Rightarrow> string \<Rightarrow> exn + flat_category" where
  "legacy_find_category_in_catalog frames catalog_data url =
     (case legacy_extract_category_data frames catalog_data of
        Inl e \<Rightarrow> Inl e
      | Inr catalog_list \<Rightarrow> legacy_find_category catalog_list url)"

text \<open>The positions at which \<open>sep\<close> occurs in \<open>s\<close>.\<close>

definition occurs_at :: "string \<Rightarrow> string \<Rightarrow> nat \<Rightarrow> bool" where
  "occurs_at sep s i = prefix sep (drop i s)"

text \<open>The two matching rules of the design document's resolver, for one candidate:
  the URL part of the query is the candidate's \<^verbatim>\<open>url\<close>, or the query is the
  candidate's \<^verbatim>\<open>name\<close>.\<close>

definition url_matches :: "string \<Rightarrow> flat_category \<Rightarrow> bool" where
  "url_matches q c = (cat_url c = JStr (url_part q))"

definition name_matches :: "string \<Rightarrow> flat_category \<Rightarrow> bool" where
  "name_matches q c = (cat_name c = JStr q)"

section \<open>Prices: \<^verbatim>\<open>int(value / 100)\<close>\<close>

text \<open>
  Python's \<^verbatim>\<open>/\<close> is true division: for two integers it returns the double nearest
  to the exact quotient (ties to even) and raises \<^verbatim>\<open>OverflowError\<close> when that is
  beyond the doubles; \<^verbatim>\<open>int\<close> of a float drops the fraction, towards zero. The value
  of a double is kept as a rational. \<open>binade a b\<close> is the exponent \<open>e\<close> with
  \<open>2^e \<le> a / b < 2^(e + 1)\<close> for positive \<open>a\<close>, \<open>b\<close>; a double of that binade is a
  multiple of \<open>2^(e - 52)\<close>, and of \<open>2^(- 1074)\<close> below the normal range.
\<close>

definition pow2 :: "int \<Rightarrow> rat" where
  "pow2 e = (if 0 \<le> e then 2 ^ nat e else 1 / 2 ^ nat (- e))"

definition round_half_even :: "rat \<Rightarrow> int" where
  "round_half_even x =
     (let f = \<lfloor>x\<rfloor>; d = x - of_int f
      in if d < 1 / 2 then f else if 1 / 2 < d then f + 1 else if even f then f else f + 1)"

definition binade :: "int \<Rightarrow> int \<Rightarrow> int" where
  "binade a b = (let k = bitlen b in bitlen ((a * 2 ^ nat k) div b) - 1 - k)"

definition nearest_double :: "int \<Rightarrow> int \<Rightarrow> exn + rat" where
  "nearest_double a b =
     (if a = 0 then Inr 0
      else let e = max (binade \<bar>a\<bar> b) (- 1022);
               ulp = pow2 (e - 52);
               r = of_int (round_half_even (of_int a / of_int b / ulp)) * ulp
           in if pow2 1024 \<le> \<bar>r\<bar> then Inl OverflowError else Inr r)"

text \<open>\<^verbatim>\<open>value / 100\<close>: defined on numbers (a boolean counts as 0 or 1), a
  \<^verbatim>\<open>TypeError\<close> on anything else.\<close>

fun div_by_100 :: "json \<Rightarrow> exn + rat" where
  "div_by_100 (JInt a) = nearest_double a 100"
| "div_by_100 (JBool b) = nearest_double (if b then 1 else 0) 100"
| "div_by_100 (JFloat x) = (case quotient_of x of (a, b) \<Rightarrow> nearest_double a (b * 100))"
| "div_by_100 _ = Inl TypeError"

definition py_int :: "rat \<Rightarrow> int" where
  "py_int x = (if 0 \<le> x then \<lfloor>x\<rfloor> else \<lceil>x\<rceil>)"

definition major_units :: "json \<Rightarrow> exn + int" where
  "major_units v = (case div_by_100 v of Inl e \<Rightarrow> Inl e | Inr x \<Rightarrow> Inr (py_int x))"

section \<open>Parsing one page\<close>

text \<open>Sequencing of steps that may raise: the first exception ends the computation.\<close>

definition ebind :: "exn + 'a \<Rightarrow> ('a \<Rightarrow> exn + 'b) \<Rightarrow> exn + 'b" where
  "ebind m f = (case m of Inl e \<Rightarrow> Inl e | Inr x \<Rightarrow> f x)"

fun map_exn :: "('a \<Rightarrow> exn + 'b) \<Rightarrow> 'a list \<Rightarrow> exn + 'b list" where
  "map_exn f [] = Inr []"
| "map_exn f (x # xs) = ebind (f x) (\<lambda>y. ebind (map_exn f xs) (\<lambda>ys. Inr (y # ys)))"

text \<open>
  Stable version. A product card is the dict built per item; \<open>Link\<close> holds the value
  that the f-string renders into
  \<^verbatim>\<open>https://www.wildberries.ru/catalog/{item['id']}/detail.aspx\<close>, and \<open>Selled\<close>
  is the key that only \<^verbatim>\<open>get_sales_data\<close> adds.
  \<^verbatim>\<open>
  def get_products_on_page(self, page_data: dict) -> list:
      products_on_page = [
          {'Link': f".../catalog/{item['id']}/detail.aspx", 'ID': item['id'],
           'Name': item['name'], 'Brand': item['brand'], 'Brand ID': item['brandId'],
           'Price': int(item['priceU'] / 100),
           'Discounted price': int(item['salePriceU'] / 100),
           'Rating': item['rating'], 'Reviews': item['feedbacks']}
          for item in page_data['data']['products']]
      return products_on_page
  \<close>
\<close>

record product_card =
  Link :: json
  ID :: json
  Name :: json
  Brand :: json
  Brand_ID :: json
  Price :: int
  Discounted_price :: int
  Rating :: json
  Reviews :: json
  Selled :: "json option"

definition card_of_item :: "json \<Rightarrow> exn + product_card" where
  "card_of_item item =
     ebind (getitem item ''id'') (\<lambda>link_id.
     ebind (getitem item ''id'') (\<lambda>item_id.
     ebind (getitem item ''name'') (\<lambda>item_name.
     ebind (getitem item ''brand'') (\<lambda>brand.
     ebind (getitem item ''brandId'') (\<lambda>brand_id.
     ebind (getitem item ''priceU'') (\<lambda>priceU.
     ebind (major_units priceU) (\<lambda>price.
     ebind (getitem item ''salePriceU'') (\<lambda>salePriceU.
     ebind (major_units salePriceU) (\<lambda>discounted.
     ebind (getitem item ''rating'') (\<lambda>rating.
     ebind (getitem item ''feedbacks'') (\<lambda>feedbacks.
       Inr \<lparr>Link = link_id, ID = item_id, Name = item_name, Brand = brand, Brand_ID = brand_id,
            Price = price, Discounted_price = discounted, Rating = rating,
            Reviews = feedbacks, Selled = None\<rparr>)))))))))))"

definition get_products_on_page :: "json \<Rightarrow> exn + product_card list" where
  "get_products_on_page page_data =
     ebind (getitem page_data ''data'') (\<lambda>data.
     ebind (getitem data ''products'') (\<lambda>products.
     ebind (py_iter products) (\<lambda>items. map_exn card_of_item items)))"

text \<open>
  Legacy version. \<^verbatim>\<open>item.get\<close> exists on dicts only (\<^verbatim>\<open>AttributeError\<close>
  otherwise) and reads a missing key as \<^verbatim>\<open>None\<close>, on which the division raises
  \<^verbatim>\<open>TypeError\<close>.
  \<^verbatim>\<open>
  def extract_product_data(json_data: dict) -> list:
      products = []
      for item in json_data['data']['products']:
          products.append({
              'id': item.get('id'), 'name': item.get('name'),
              'price': int(item.get("priceU") / 100),
              'salePriceU': int(item.get('salePriceU') / 100),
              'cashback': item.get('feedbackPoints'), 'sale': item.get('sale'),
              'brand': item.get('brand'), 'rating': item.get('rating'),
              'supplier': item.get('supplier'), 'supplierRating': item.get('supplierRating'),
              'feedbacks': item.get('feedbacks'), 'reviewRating': item.get('reviewRating'),
              'promoTextCard': item.get('promoTextCard'), 'promoTextCat': item.get('promoTextCat'),
              'link': f'https://www.wildberries.ru/catalog/{item.get("id")}/detail.aspx?targetUrl=BP'})
      return products
  \<close>
\<close>

record legacy_product =
  p_id :: json
  p_name :: json
  p_price :: int
  p_salePriceU :: int
  p_cashback :: json
  p_sale :: json
  p_brand :: json
  p_rating :: json
  p_supplier :: json
  p_supplierRating :: json
  p_feedbacks :: json
  p_reviewRating :: json
  p_promoTextCard :: json
  p_promoTextCat :: json
  p_link :: json

definition legacy_product_of_item :: "json \<Rightarrow> exn + legacy_product" where
  "legacy_product_of_item item =
     (case item of
        JObj kvs \<Rightarrow>
          ebind (major_units (dict_get kvs ''priceU'')) (\<lambda>price.
          ebind (major_units (dict_get kvs ''salePriceU'')) (\<lambda>sale_price.
            Inr \<lparr>p_id = dict_get kvs ''id'', p_name = dict_get kvs ''name'',
                 p_price = price, p_salePriceU = sale_price,
                 p_cashback = dict_get kvs ''feedbackPoints'', p_sale = dict_get kvs ''sale'',
                 p_brand = dict_get kvs ''brand'', p_rating = dict_get kvs ''rating'',
                 p_supplier = dict_get kvs ''supplier'',
                 p_supplierRating = dict_get kvs ''supplierRating'',
                 p_feedbacks = dict_get kvs ''feedbacks'',
                 p_reviewRating = dict_get kvs ''reviewRating'',
                 p_promoTextCard = dict_get kvs ''promoTextCard'',
                 p_promoTextCat = dict_get kvs ''promoTextCat'',
                 p_link = dict_get kvs ''id''\<rparr>))
      | _ \<Rightarrow> Inl AttributeError)"

definition legacy_extract_product_data :: "json \<Rightarrow> exn + legacy_product list" where
  "legacy_extract_product_data json_data =
     ebind (getitem json_data ''data'') (\<lambda>data.
     ebind (getitem data ''products'') (\<lambda>products.
     ebind (py_iter products) (\<lambda>items. map_exn legacy_product_of_item items)))"

section \<open>Walking the pages\<close>

subsection \<open>Stable version\<close>

text \<open>
  \<^verbatim>\<open>requests.get(url, headers=self.headers).json()\<close> is the remote side: a function
  \<open>http\<close> from the URL to either the exception the call raises or the decoded body.
  The URL of a page is built by \<^verbatim>\<open>build_catalogue_url(category_data, page)\<close> (or
  \<^verbatim>\<open>build_search_url(key_word, page)\<close> in the keyword loop, which is the same loop);
  only the page number varies during a run, so the builder is a function \<open>build\<close> of
  the page number into any type of URLs.
  \<^verbatim>\<open>
  def add_data_from_page(self, url: str) -> bool:
      response = requests.get(url, headers=self.headers).json()
      page_data = self.get_products_on_page(response)
      if page_data:
          self.product_cards.extend(page_data)
      else:
          return True
      return False
  \<close>
  \<open>self.product_cards\<close> is passed in and returned next to the boolean.
\<close>

definition add_data_from_page ::
  "('u \<Rightarrow> exn + json) \<Rightarrow> 'u \<Rightarrow> product_card list \<Rightarrow> exn + (bool \<times> product_card list)" where
  "add_data_from_page http url product_cards =
     ebind (http url) (\<lambda>response.
     ebind (get_products_on_page response) (\<lambda>page_data.
       if page_data \<noteq> [] then Inr (False, product_cards @ page_data)
       else Inr (True, product_cards)))"

text \<open>
  \<^verbatim>\<open>
  def get_all_products_in_category(self, category_data: tuple) -> None:
      for page in range(1, 101):
          url = self.build_catalogue_url(category_data, page)
          if self.add_data_from_page(url):
              break
  \<close>
  \<open>load_pages\<close> is the \<^verbatim>\<open>for\<close> loop over the pages not yet visited. The result
  is the list of URLs requested, in order, the final \<open>self.product_cards\<close>, and the
  exception that left the method, if one did. The method itself returns \<^verbatim>\<open>None\<close>
  however the loop ends.
\<close>

fun load_pages ::
  "(nat \<Rightarrow> 'u) \<Rightarrow> ('u \<Rightarrow> exn + json) \<Rightarrow> nat list \<Rightarrow> product_card list
     \<Rightarrow> 'u list \<times> product_card list \<times> exn option" where
  "load_pages build http [] product_cards = ([], product_cards, None)"
| "load_pages build http (page # pages) product_cards =
     (case add_data_from_page http (build page) product_cards of
        Inl e \<Rightarrow> ([build page], product_cards, Some e)
      | Inr (True, cards) \<Rightarrow> ([build page], cards, None)
      | Inr (False, cards) \<Rightarrow>
          (case load_pages build http pages cards of
             (requested, final, raised) \<Rightarrow> (build page # requested, final, raised)))"

definition get_all_products_in_category ::
  "(nat \<Rightarrow> 'u) \<Rightarrow> ('u \<Rightarrow> exn + json) \<Rightarrow> product_card list
     \<Rightarrow> 'u list \<times> product_card list \<times> exn option" where
  "get_all_products_in_category build http product_cards =
     load_pages build http [1..<101] product_cards"

text \<open>What a page yields: the first two statements of \<^verbatim>\<open>add_data_from_page\<close>,
  the request and the parsing of its response.\<close>

definition page_records :: "('u \<Rightarrow> exn + json) \<Rightarrow> 'u \<Rightarrow> exn + product_card list" where
  "page_records http url = ebind (http url) get_products_on_page"

subsection \<open>Legacy version\<close>

text \<open>
  \<^verbatim>\<open>
  @retry(Exception, tries=-1, delay=0)
  def scrape_page(self, page: int) -> dict:
      ...
      response = requests.get(url, headers=headers)
      return response.json()
  \<close>
  The decorator calls the method again, at once and without bound, whenever it raises
  any exception. \<open>http page n\<close> is what the request number \<open>n\<close> (from 0) for this
  page meets: the exception raised by \<^verbatim>\<open>requests.get\<close> or by \<^verbatim>\<open>response.json()\<close>,
  or the decoded body. \<open>retry_from\<close> is the retry loop from request \<open>n\<close> on. The
  result is the number of requests sent and the decoded body; \<open>None\<close> is a call that
  never returns.
\<close>

partial_function (option) retry_from :: "(nat \<Rightarrow> exn + json) \<Rightarrow> nat \<Rightarrow> (nat \<times> json) option" where
  "retry_from attempts n =
     (case attempts n of
        Inl e \<Rightarrow> retry_from attempts (Suc n)
      | Inr data \<Rightarrow> Some (Suc n, data))"

definition scrape_page :: "(nat \<Rightarrow> nat \<Rightarrow> exn + json) \<Rightarrow> nat \<Rightarrow> (nat \<times> json) option" where
  "scrape_page http page = retry_from (http page) 0"

text \<open>
  \<^verbatim>\<open>
  def collect_products(self) -> list:
      products = []
      for page in range(1, 51):
          data = self.scrape_page(page)
          product_list = self.extract_product_data(data)
          if product_list:
              products.extend(product_list)
          else:
              break
      return products
  \<close>
  \<open>collect_pages\<close> is the \<^verbatim>\<open>for\<close> loop over the pages not yet visited. The
  result, when the method ends, is the list of pages fetched with the number of
  requests each took, and the products returned or the exception raised; \<open>None\<close> is
  a run that never ends.
\<close>

fun collect_pages ::
  "(nat \<Rightarrow> nat \<Rightarrow> exn + json) \<Rightarrow> nat list \<Rightarrow> legacy_product list
     \<Rightarrow> ((nat \<times> nat) list \<times> (exn + legacy_product list)) option" where
  "collect_pages http [] products = Some ([], Inr products)"
| "collect_pages http (page # pages) products =
     (case scrape_page http page of
        None \<Rightarrow> None
      | Some (n, data) \<Rightarrow>
          (case legacy_extract_product_data data of
             Inl e \<Rightarrow> Some ([(page, n)], Inl e)
           | Inr product_list \<Rightarrow>
               if product_list \<noteq> []
               then (case collect_pages http pages (products @ product_list) of
                       None \<Rightarrow> None
                     | Some (fetched, result) \<Rightarrow> Some ((page, n) # fetched, result))
               else Some ([(page, n)], Inr products)))"

definition collect_products ::
  "(nat \<Rightarrow> nat \<Rightarrow> exn + json) \<Rightarrow> ((nat \<times> nat) list \<times> (exn + legacy_product list)) option" where
  "collect_products http = collect_pages http [1..<51] []"

text \<open>What a page yields in the legacy loop: the first two statements of its body,
  \<^verbatim>\<open>scrape_page\<close> with its retries and the parsing of the body it returned.\<close>

definition fetch_and_parse ::
  "(nat \<Rightarrow> nat \<Rightarrow> exn + json) \<Rightarrow> nat \<Rightarrow> (nat \<times> (exn + legacy_product list)) option" where
  "fetch_and_parse http page =
     (case scrape_page http page of
        None \<Rightarrow> None
      | Some (n, data) \<Rightarrow> Some (n, legacy_extract_product_data data))"

section \<open>Sales figures (stable version)\<close>

text \<open>
  \<^verbatim>\<open>
  def get_sales_data(self) -> None:
      for card in self.product_cards:
          url = f"https://product-order-qnt.wildberries.ru/by-nm/?nm={card['ID']}"
          try:
              response = requests.get(url, headers=self.headers).json()
              card['Selled'] = response[0]['qnt']
          except requests.ConnectTimeout:
              card['Selled'] = 'no data'
  \<close>
  \<open>http i v\<close> is what the \<open>i\<close>-th request of the loop, which asks for the product
  with \<^verbatim>\<open>ID\<close> \<open>v\<close>, meets. \<^verbatim>\<open>response[0]\<close> is the first element of a list, the
  first character of a string, and a \<^verbatim>\<open>KeyError\<close> on a dict, whose keys are
  strings. \<open>sales_loop\<close> is the \<^verbatim>\<open>for\<close> loop over the cards not yet visited, with
  the number of requests sent so far. The result is \<open>self.product_cards\<close> after the
  loop and the exception that left the method, if one did.
\<close>

fun first_item :: "json \<Rightarrow> exn + json" where
  "first_item (JArr xs) = (case xs of [] \<Rightarrow> Inl IndexError | x # _ \<Rightarrow> Inr x)"
| "first_item (JStr s) = (case s of [] \<Rightarrow> Inl IndexError | c # _ \<Rightarrow> Inr (JStr [c]))"
| "first_item (JObj kvs) = Inl (KeyError ''0'')"
| "first_item _ = Inl TypeError"

definition sold_quantity :: "(nat \<Rightarrow> json \<Rightarrow> exn + json) \<Rightarrow> nat \<Rightarrow> product_card \<Rightarrow> exn + json" where
  "sold_quantity http i pcard =
     ebind (http i (ID pcard)) (\<lambda>response.
     ebind (first_item response) (\<lambda>first. getitem first ''qnt''))"

fun sales_loop ::
  "(nat \<Rightarrow> json \<Rightarrow> exn + json) \<Rightarrow> nat \<Rightarrow> product_card list \<Rightarrow> product_card list \<times> exn option" where
  "sales_loop http i [] = ([], None)"
| "sales_loop http i (pcard # pcards) =
     (case sold_quantity http i pcard of
        Inr qnt \<Rightarrow>
          (case sales_loop http (Suc i) pcards of
             (enriched, raised) \<Rightarrow> (pcard\<lparr>Selled := Some qnt\<rparr> # enriched, raised))
      | Inl ConnectTimeout \<Rightarrow>
          (case sales_loop http (Suc i) pcards of
             (enriched, raised) \<Rightarrow> (pcard\<lparr>Selled := Some (JStr ''no data'')\<rparr> # enriched, raised))
      | Inl e \<Rightarrow> (pcard # pcards, Some e))"

definition get_sales_data ::
  "(nat \<Rightarrow> json \<Rightarrow> exn + json) \<Rightarrow> product_card list \<Rightarrow> product_card list \<times> exn option" where
  "get_sales_data http product_cards = sales_loop http 0 product_cards"

text \<open>
  What the design document asks of the enrichment of one record: the sold quantity
  when the follow-up request yields one, the sentinel otherwise. \<open>item_ok\<close> holds of
  the outcomes that the loop survives: a quantity, or a connect timeout.
\<close>

definition enriched :: "(nat \<Rightarrow> json \<Rightarrow> exn + json) \<Rightarrow> nat \<Rightarrow> product_card \<Rightarrow> product_card" where
  "enriched http i pcard =
     pcard\<lparr>Selled := Some (case sold_quantity http i pcard of
                              Inr qnt \<Rightarrow> qnt
                            | Inl e \<Rightarrow> JStr ''no data'')\<rparr>"

definition item_ok :: "(nat \<Rightarrow> json \<Rightarrow> exn + json) \<Rightarrow> nat \<Rightarrow> product_card \<Rightarrow> bool" where
  "item_ok http i pcard =
     (case sold_quantity http i pcard of Inr qnt \<Rightarrow> True | Inl e \<Rightarrow> e = ConnectTimeout)"

section \<open>Example inputs\<close>




text \<open>A flattened catalogue with two entries of the same name.\<close>

definition twin_catalogue :: "flat_category list" where
  "twin_catalogue =
     [\<lparr>cat_name = JStr ''Shoes'', cat_url = JStr ''/men/shoes'',
        cat_shard = JStr ''1'', cat_query = JStr ''cat=1''\<rparr>,
      \<lparr>cat_name = JStr ''Shoes'', cat_url = JStr ''/women/shoes'',
        cat_shard = JStr ''2'', cat_query = JStr ''cat=2''\<rparr>]"

text \<open>One item of a listing page, and the card the stable parser makes of it.\<close>

definition shoe_fields :: "(string \<times> json) list" where
  "shoe_fields =
     [(''id'', JInt 7), (''name'', JStr ''Boot''), (''brand'', JStr ''Acme''),
      (''brandId'', JInt 3), (''priceU'', JInt 123456), (''salePriceU'', JInt 99999),
      (''rating'', JInt 5), (''feedbacks'', JInt 12)]"

definition shoe_card :: product_card where
  "shoe_card =
     \<lparr>Link = JInt 7, ID = JInt 7, Name = JStr ''Boot'', Brand = JStr ''Acme'',
      Brand_ID = JInt 3, Price = 1234, Discounted_price = 999, Rating = JInt 5,
      Reviews = JInt 12, Selled = None\<rparr>"

text \<open>A page with the listing container and no product in it.\<close>

definition empty_page :: json where
  "empty_page = JObj [(''data'', JObj [(''products'', JArr [])])]"

text \<open>The product the legacy parser makes of that item, and pages with one and with
  two such items.\<close>

definition shoe_product :: legacy_product where
  "shoe_product =
     \<lparr>p_id = JInt 7, p_name = JStr ''Boot'', p_price = 1234, p_salePriceU = 999,
      p_cashback = JNull, p_sale = JNull, p_brand = JStr ''Acme'', p_rating = JInt 5,
      p_supplier = JNull, p_supplierRating = JNull, p_feedbacks = JInt 12,
      p_reviewRating = JNull, p_promoTextCard = JNull, p_promoTextCat = JNull,
      p_link = JInt 7\<rparr>"

definition one_page :: json where
  "one_page = JObj [(''data'', JObj [(''products'', JArr [JObj shoe_fields])])]"

definition two_page :: json where
  "two_page = JObj [(''data'', JObj [(''products'', JArr [JObj shoe_fields, JObj shoe_fields])])]"

text \<open>Remote sides for the stable loop, with the page number as URL: two pages of
  which the second is empty; a second page whose request times out; a product on
  every page; and 99 non-empty pages, two products on the first, before an empty one.\<close>

definition two_pages :: "nat \<Rightarrow> exn + json" where
  "two_pages url = (if url = 1 then Inr one_page else Inr empty_page)"

definition second_times_out :: "nat \<Rightarrow> exn + json" where
  "second_times_out url = (if url = 1 then Inr one_page else Inl ConnectTimeout)"

definition endless :: "nat \<Rightarrow> exn + json" where
  "endless url = Inr one_page"

definition ends_at_100 :: "nat \<Rightarrow> exn + json" where
  "ends_at_100 url =
     (if url = 1 then Inr two_page else if url = 100 then Inr empty_page else Inr one_page)"

text \<open>Remote sides for the legacy loop: a first page that answers at the third
  request and an empty second page; an error payload on the second page; a second page
  on which every request fails; a product on every page; 49 non-empty pages, two
  products on the first, before an empty one; and requests that all fail.\<close>

definition legacy_two_pages :: "nat \<Rightarrow> nat \<Rightarrow> exn + json" where
  "legacy_two_pages page i =
     (if page = 1 then (if i < 2 then Inl ConnectTimeout else Inr one_page) else Inr empty_page)"

definition legacy_error_payload :: "nat \<Rightarrow> nat \<Rightarrow> exn + json" where
  "legacy_error_payload page i =
     (if page = 1 then Inr one_page else Inr (JObj [(''error'', JStr ''bad request'')]))"

definition legacy_second_fails :: "nat \<Rightarrow> nat \<Rightarrow> exn + json" where
  "legacy_second_fails page i = (if page = 1 then Inr one_page else Inl ValueError)"

definition legacy_endless :: "nat \<Rightarrow> nat \<Rightarrow> exn + json" where
  "legacy_endless page i = Inr one_page"

definition legacy_ends_at_50 :: "nat \<Rightarrow> nat \<Rightarrow> exn + json" where
  "legacy_ends_at_50 page i =
     (if page = 1 then Inr two_page else if page = 50 then Inr empty_page else Inr one_page)"

definition always_fails :: "nat \<Rightarrow> nat \<Rightarrow> exn + json" where
  "always_fails page i = Inl ValueError"

text \<open>Three cards, and remote sides for the sales loop: one that answers every
  request with a quantity, and three that fail on the second request only, with a
  connect timeout, with a read timeout, and with an empty list as answer.\<close>

definition three_cards :: "product_card list" where
  "three_cards = [shoe_card, shoe_card\<lparr>ID := JInt 8\<rparr>, shoe_card\<lparr>ID := JInt 9\<rparr>]"

definition sales_answer :: "nat \<Rightarrow> json \<Rightarrow> exn + json" where
  "sales_answer i v = Inr (JArr [JObj [(''nmId'', v), (''qnt'', JInt (10 + int i))]])"

definition sales_connect_timeout :: "nat \<Rightarrow> json \<Rightarrow> exn + json" where
  "sales_connect_timeout i v = (if i = 1 then Inl ConnectTimeout else sales_answer i v)"

definition sales_read_timeout :: "nat \<Rightarrow> json \<Rightarrow> exn + json" where
  "sales_read_timeout i v = (if i = 1 then Inl ReadTimeout else sales_answer i v)"

definition sales_empty_answer :: "nat \<Rightarrow> json \<Rightarrow> exn + json" where
  "sales_empty_answer i v = (if i = 1 then Inr (JArr []) else sales_answer i v)"

section \<open>Properties of the flatteners\<close>




lemma traverse_categories_other:
  "\<forall>kvs. category \<noteq> JObj kvs \<Longrightarrow> traverse_categories frames (category # rest) fl = Inl TypeError"
  by (cases category) auto




































section \<open>Properties of the resolvers\<close>

lemma py_split_from_nonempty: "py_split_from sep field s \<noteq> []"
  by (induction sep field s rule: py_split_from.induct)
     (subst py_split_from.simps, auto split: list.splits)

lemma occurs_at_Cons: "occurs_at sep (c # cs) (Suc j) = occurs_at sep cs j"
  by (simp add: occurs_at_def)

lemma occurs_at_shift: "occurs_at sep (sep @ t) (length sep + j) = occurs_at sep t j"
  by (simp add: occurs_at_def)

lemma no_overlap:
  assumes "sep \<noteq> []" "hd sep \<notin> set (tl sep)" "0 < j" "j < length sep"
  shows "\<not> occurs_at sep (sep @ t) j"
proof
  assume "occurs_at sep (sep @ t) j"
  then have p: "prefix sep (drop j sep @ t)" using assms by (simp add: occurs_at_def)
  from assms have ne: "drop j sep \<noteq> []" by simp
  then obtain x xs where d: "drop j sep = x # xs" by (cases "drop j sep") auto
  with p assms(1) have "hd sep = x" by (cases sep) auto
  moreover have "x \<in> set (drop j sep)" using d by simp
  then have "x \<in> set (tl sep)" using assms(3)
    by (metis Suc_pred drop_Suc in_set_dropD)
  ultimately show False using assms(2) by simp
qed

lemma last_split_from:
  assumes "sep \<noteq> []" "hd sep \<notin> set (tl sep)"
  shows "((\<forall>i. \<not> occurs_at sep s i) \<longrightarrow> last (py_split_from sep field s) = field @ s)
    \<and> (\<forall>i. occurs_at sep s i \<and> (\<forall>j>i. \<not> occurs_at sep s j) \<longrightarrow>
          last (py_split_from sep field s) = drop (i + length sep) s)"
  using assms
proof (induction sep field s rule: py_split_from.induct)
  case (1 sep field s)
  let ?n = "length sep"
  show ?case
  proof (cases "prefix sep s")
    case True
    then obtain t where s: "s = sep @ t" by (auto simp: prefix_def)
    have unf: "py_split_from sep field s = field # py_split_from sep [] t"
      using "1.prems" s by (subst py_split_from.simps) simp
    have ih: "((\<forall>i. \<not> occurs_at sep t i) \<longrightarrow> last (py_split_from sep [] t) = [] @ t)
      \<and> (\<forall>i. occurs_at sep t i \<and> (\<forall>j>i. \<not> occurs_at sep t j) \<longrightarrow>
          last (py_split_from sep [] t) = drop (i + ?n) t)"
      using "1.IH"(1) "1.prems" True s by simp
    have occ0: "occurs_at sep s 0" using True by (simp add: occurs_at_def)
    have lastt: "last (py_split_from sep field s) = last (py_split_from sep [] t)"
      using unf py_split_from_nonempty by simp
    show ?thesis
    proof (intro conjI impI allI)
      assume "\<forall>i. \<not> occurs_at sep s i"
      with occ0 show "last (py_split_from sep field s) = field @ s" by simp
    next
      fix i
      assume a: "occurs_at sep s i \<and> (\<forall>j>i. \<not> occurs_at sep s j)"
      show "last (py_split_from sep field s) = drop (i + ?n) s"
      proof (cases "i = 0")
        case True
        have "\<forall>k. \<not> occurs_at sep t k"
        proof
          fix k
          have "?n + k > i" using True "1.prems" by simp
          with a have "\<not> occurs_at sep s (?n + k)" by simp
          then show "\<not> occurs_at sep t k" by (simp add: s occurs_at_shift)
        qed
        with ih have "last (py_split_from sep [] t) = t" by simp
        with lastt True s show ?thesis by simp
      next
        case False
        have "\<not> i < ?n"
        proof
          assume "i < ?n"
          with False no_overlap [OF "1.prems", of i t] a s show False by simp
        qed
        then obtain k where k: "i = ?n + k" using le_Suc_ex not_less by blast
        with a s have "occurs_at sep t k" by (simp add: occurs_at_shift)
        moreover have "\<forall>j>k. \<not> occurs_at sep t j"
        proof (intro allI impI)
          fix j assume "k < j"
          then have "i < ?n + j" using k by simp
          with a have "\<not> occurs_at sep s (?n + j)" by simp
          then show "\<not> occurs_at sep t j" by (simp add: s occurs_at_shift)
        qed
        ultimately have "last (py_split_from sep [] t) = drop (k + ?n) t" using ih by simp
        with lastt k s show ?thesis by (simp add: add.commute)
      qed
    qed
  next
    case False
    show ?thesis
    proof (cases s)
      case Nil
      have "py_split_from sep field [] = [field]"
        using "1.prems" by (subst py_split_from.simps) simp
      moreover have "\<not> occurs_at sep [] i" for i using "1.prems" by (simp add: occurs_at_def)
      ultimately show ?thesis using Nil by simp
    next
      case (Cons c cs)
      have unf: "py_split_from sep field s = py_split_from sep (field @ [c]) cs"
        using False Cons by (subst py_split_from.simps) simp
      have ih: "((\<forall>i. \<not> occurs_at sep cs i) \<longrightarrow>
            last (py_split_from sep (field @ [c]) cs) = (field @ [c]) @ cs)
        \<and> (\<forall>i. occurs_at sep cs i \<and> (\<forall>j>i. \<not> occurs_at sep cs j) \<longrightarrow>
            last (py_split_from sep (field @ [c]) cs) = drop (i + ?n) cs)"
        using "1.IH"(2) [OF _ Cons] False "1.prems" by simp
      have not0: "\<not> occurs_at sep s 0" using False by (simp add: occurs_at_def)
      show ?thesis
      proof (intro conjI impI allI)
        assume none: "\<forall>i. \<not> occurs_at sep s i"
        have "\<forall>i. \<not> occurs_at sep cs i"
        proof
          fix i from none have "\<not> occurs_at sep s (Suc i)" by simp
          then show "\<not> occurs_at sep cs i" by (simp add: Cons occurs_at_Cons)
        qed
        with ih unf Cons show "last (py_split_from sep field s) = field @ s" by simp
      next
        fix i
        assume a: "occurs_at sep s i \<and> (\<forall>j>i. \<not> occurs_at sep s j)"
        with not0 obtain k where k: "i = Suc k" by (cases i) auto
        with a Cons have "occurs_at sep cs k" by (simp add: occurs_at_Cons)
        moreover have "\<forall>j>k. \<not> occurs_at sep cs j"
        proof (intro allI impI)
          fix j assume "k < j"
          with a k have "\<not> occurs_at sep s (Suc j)" by simp
          then show "\<not> occurs_at sep cs j" by (simp add: Cons occurs_at_Cons)
        qed
        ultimately have "last (py_split_from sep (field @ [c]) cs) = drop (k + ?n) cs"
          using ih by simp
        with unf k Cons show "last (py_split_from sep field s) = drop (i + ?n) s" by simp
      qed
    qed
  qed
qed

lemma wb_prefix_border_free: "wb_prefix \<noteq> [] \<and> hd wb_prefix \<notin> set (tl wb_prefix)"
  by (simp add: wb_prefix_def)

lemma url_part_spec:
  "((\<forall>i. \<not> occurs_at wb_prefix q i) \<longrightarrow> url_part q = q)
   \<and> (\<forall>i. occurs_at wb_prefix q i \<and> (\<forall>j>i. \<not> occurs_at wb_prefix q j) \<longrightarrow>
         url_part q = drop (i + length wb_prefix) q)"
  using last_split_from [of wb_prefix q "[]"] wb_prefix_border_free
  unfolding url_part_def py_split_def by simp


lemma py_split_from_sep:
  "sep \<noteq> [] \<Longrightarrow> py_split_from sep field (sep @ s) = field # py_split_from sep [] s"
  by (subst py_split_from.simps) simp

lemma url_part_prefixed: "url_part (wb_prefix @ s) = url_part s"
proof -
  have "wb_prefix \<noteq> []" by (simp add: wb_prefix_def)
  then show ?thesis
    by (simp add: url_part_def py_split_def py_split_from_sep py_split_from_nonempty)
qed

lemma stable_first_match:
  "(case extract_category_data catalogue q of
      None \<Rightarrow> \<forall>i<length catalogue. \<not> (url_matches q (catalogue ! i) \<or> name_matches q (catalogue ! i))
    | Some r \<Rightarrow>
        (\<exists>i<length catalogue.
           (url_matches q (catalogue ! i) \<or> name_matches q (catalogue ! i))
           \<and> (\<forall>j<i. \<not> (url_matches q (catalogue ! j) \<or> name_matches q (catalogue ! j)))
           \<and> r = (cat_name (catalogue ! i), cat_shard (catalogue ! i), cat_query (catalogue ! i))))"
proof (induction catalogue)
  case Nil
  show ?case by simp
next
  case (Cons c cs)
  show ?case
  proof (cases "url_matches q c \<or> name_matches q c")
    case True
    then have "extract_category_data (c # cs) q = Some (cat_name c, cat_shard c, cat_query c)"
      by (auto simp: url_matches_def name_matches_def)
    moreover have "\<exists>i<length (c # cs).
           (url_matches q ((c # cs) ! i) \<or> name_matches q ((c # cs) ! i))
           \<and> (\<forall>j<i. \<not> (url_matches q ((c # cs) ! j) \<or> name_matches q ((c # cs) ! j)))
           \<and> (cat_name c, cat_shard c, cat_query c) =
              (cat_name ((c # cs) ! i), cat_shard ((c # cs) ! i), cat_query ((c # cs) ! i))"
      using True by (intro exI [of _ 0]) simp
    ultimately show ?thesis by simp
  next
    case False
    then have eq: "extract_category_data (c # cs) q = extract_category_data cs q"
      by (auto simp: url_matches_def name_matches_def)
    show ?thesis
    proof (cases "extract_category_data cs q")
      case None
      with Cons have "\<forall>i<length cs. \<not> (url_matches q (cs ! i) \<or> name_matches q (cs ! i))" by simp
      with False have "\<forall>i<length (c # cs). \<not> (url_matches q ((c # cs) ! i) \<or> name_matches q ((c # cs) ! i))"
        by (auto simp: nth_Cons split: nat.splits)
      with eq None show ?thesis by simp
    next
      case (Some r)
      with Cons obtain i where i: "i < length cs"
        "url_matches q (cs ! i) \<or> name_matches q (cs ! i)"
        "\<forall>j<i. \<not> (url_matches q (cs ! j) \<or> name_matches q (cs ! j))"
        "r = (cat_name (cs ! i), cat_shard (cs ! i), cat_query (cs ! i))" by auto
      have "Suc i < length (c # cs)
           \<and> (url_matches q ((c # cs) ! Suc i) \<or> name_matches q ((c # cs) ! Suc i))
           \<and> (\<forall>j<Suc i. \<not> (url_matches q ((c # cs) ! j) \<or> name_matches q ((c # cs) ! j)))
           \<and> r = (cat_name ((c # cs) ! Suc i), cat_shard ((c # cs) ! Suc i), cat_query ((c # cs) ! Suc i))"
        using i False by (auto simp: nth_Cons split: nat.splits)
      then have "\<exists>k<length (c # cs).
           (url_matches q ((c # cs) ! k) \<or> name_matches q ((c # cs) ! k))
           \<and> (\<forall>j<k. \<not> (url_matches q ((c # cs) ! j) \<or> name_matches q ((c # cs) ! j)))
           \<and> r = (cat_name ((c # cs) ! k), cat_shard ((c # cs) ! k), cat_query ((c # cs) ! k))"
        by blast
      with eq Some show ?thesis by simp
    qed
  qed
qed

lemma legacy_first_match:
  "(case legacy_find_category catalogue q of
      Inl e \<Rightarrow> e = ValueError \<and> (\<forall>i<length catalogue. \<not> url_matches q (catalogue ! i))
    | Inr c \<Rightarrow>
        (\<exists>i<length catalogue. c = catalogue ! i \<and> url_matches q (catalogue ! i)
           \<and> (\<forall>j<i. \<not> url_matches q (catalogue ! j))))"
proof (induction catalogue)
  case Nil
  show ?case by simp
next
  case (Cons c cs)
  show ?case
  proof (cases "url_matches q c")
    case True
    then have "legacy_find_category (c # cs) q = Inr c" by (simp add: url_matches_def)
    moreover have "\<exists>i<length (c # cs). c = (c # cs) ! i \<and> url_matches q ((c # cs) ! i)
           \<and> (\<forall>j<i. \<not> url_matches q ((c # cs) ! j))"
      using True by (intro exI [of _ 0]) simp
    ultimately show ?thesis by simp
  next
    case False
    then have eq: "legacy_find_category (c # cs) q = legacy_find_category cs q"
      by (simp add: url_matches_def)
    show ?thesis
    proof (cases "legacy_find_category cs q")
      case (Inl e)
      with Cons have "e = ValueError" "\<forall>i<length cs. \<not> url_matches q (cs ! i)" by simp_all
      with False have "e = ValueError \<and> (\<forall>i<length (c # cs). \<not> url_matches q ((c # cs) ! i))"
        by (auto simp: nth_Cons split: nat.splits)
      with eq Inl show ?thesis by simp
    next
      case (Inr r)
      with Cons obtain i where i: "i < length cs" "r = cs ! i" "url_matches q (cs ! i)"
        "\<forall>j<i. \<not> url_matches q (cs ! j)" by auto
      have "Suc i < length (c # cs) \<and> r = (c # cs) ! Suc i \<and> url_matches q ((c # cs) ! Suc i)
           \<and> (\<forall>j<Suc i. \<not> url_matches q ((c # cs) ! j))"
        using i False by (auto simp: nth_Cons split: nat.splits)
      then have "\<exists>k<length (c # cs). r = (c # cs) ! k \<and> url_matches q ((c # cs) ! k)
           \<and> (\<forall>j<k. \<not> url_matches q ((c # cs) ! j))" by blast
      with eq Inr show ?thesis by simp
    qed
  qed
qed

lemma stable_prefix_irrelevant:
  "\<forall>c\<in>set catalogue. cat_name c \<noteq> JStr (wb_prefix @ s) \<and> cat_name c \<noteq> JStr s \<Longrightarrow>
     extract_category_data catalogue (wb_prefix @ s) = extract_category_data catalogue s"
  by (induction catalogue) (auto simp: url_part_prefixed)

lemma legacy_prefix_irrelevant:
  "legacy_find_category catalogue (wb_prefix @ s) = legacy_find_category catalogue s"
  by (induction catalogue) (auto simp: url_part_prefixed)

lemma url_part_plain: "url_part ''Shoes'' = ''Shoes''"
  by (simp add: url_part_def py_split_def py_split_from.simps wb_prefix_def)

lemma url_part_path: "url_part ''/women/shoes'' = ''/women/shoes''"
  by (simp add: url_part_def py_split_def py_split_from.simps wb_prefix_def)

text \<open>
  Claim C3, as amended. Both resolvers examine the candidates in the order of the
  flattened list and return the first that matches. In the stable version a candidate
  matches when its \<^verbatim>\<open>url\<close> is the URL part of the input or its \<^verbatim>\<open>name\<close> is the
  input, so of two entries with the same name the earlier one is returned, and the
  result is \<^verbatim>\<open>None\<close> when nothing matches. In the legacy version a candidate
  matches only when its \<^verbatim>\<open>url\<close> is the URL part of the input; names are not
  compared, and \<^verbatim>\<open>ValueError\<close> is raised when no \<^verbatim>\<open>url\<close> matches.
\<close>

theorem resolve_first_match:
  "(case extract_category_data catalogue q of
      None \<Rightarrow>
        \<forall>i<length catalogue. \<not> (url_matches q (catalogue ! i) \<or> name_matches q (catalogue ! i))
    | Some r \<Rightarrow>
        (\<exists>i<length catalogue.
           (url_matches q (catalogue ! i) \<or> name_matches q (catalogue ! i))
           \<and> (\<forall>j<i. \<not> (url_matches q (catalogue ! j) \<or> name_matches q (catalogue ! j)))
           \<and> r = (cat_name (catalogue ! i), cat_shard (catalogue ! i), cat_query (catalogue ! i))))
   \<and> (case legacy_find_category catalogue q of
        Inl e \<Rightarrow> e = ValueError \<and> (\<forall>i<length catalogue. \<not> url_matches q (catalogue ! i))
      | Inr c \<Rightarrow>
          (\<exists>i<length catalogue. c = catalogue ! i \<and> url_matches q (catalogue ! i)
             \<and> (\<forall>j<i. \<not> url_matches q (catalogue ! j))))"
  using stable_first_match [of catalogue q] legacy_first_match [of catalogue q] by simp

theorem resolve_first_match_witness:
  "extract_category_data twin_catalogue ''Shoes'' = Some (JStr ''Shoes'', JStr ''1'', JStr ''cat=1'')
   \<and> name_matches ''Shoes'' (twin_catalogue ! 0)
   \<and> name_matches ''Shoes'' (twin_catalogue ! 1)
   \<and> (\<exists>i<length twin_catalogue.
         (url_matches ''Shoes'' (twin_catalogue ! i) \<or> name_matches ''Shoes'' (twin_catalogue ! i))
         \<and> (\<forall>j<i. \<not> (url_matches ''Shoes'' (twin_catalogue ! j)
                      \<or> name_matches ''Shoes'' (twin_catalogue ! j)))
         \<and> (JStr ''Shoes'', JStr ''1'', JStr ''cat=1'') =
             (cat_name (twin_catalogue ! i), cat_shard (twin_catalogue ! i),
              cat_query (twin_catalogue ! i)))
   \<and> legacy_find_category twin_catalogue ''/women/shoes'' = Inr (twin_catalogue ! 1)
   \<and> (\<exists>i<length twin_catalogue. twin_catalogue ! 1 = twin_catalogue ! i
         \<and> url_matches ''/women/shoes'' (twin_catalogue ! i)
         \<and> (\<forall>j<i. \<not> url_matches ''/women/shoes'' (twin_catalogue ! j)))"
proof -
  have s: "extract_category_data twin_catalogue ''Shoes'' =
      Some (JStr ''Shoes'', JStr ''1'', JStr ''cat=1'')"
    by (simp add: twin_catalogue_def url_part_plain)
  have l: "legacy_find_category twin_catalogue ''/women/shoes'' = Inr (twin_catalogue ! 1)"
    by (simp add: twin_catalogue_def url_part_path)
  have n: "name_matches ''Shoes'' (twin_catalogue ! 0)" "name_matches ''Shoes'' (twin_catalogue ! 1)"
    by (simp_all add: twin_catalogue_def name_matches_def)
  from resolve_first_match [of twin_catalogue "''Shoes''"] s
  have a: "\<exists>i<length twin_catalogue.
         (url_matches ''Shoes'' (twin_catalogue ! i) \<or> name_matches ''Shoes'' (twin_catalogue ! i))
         \<and> (\<forall>j<i. \<not> (url_matches ''Shoes'' (twin_catalogue ! j)
                      \<or> name_matches ''Shoes'' (twin_catalogue ! j)))
         \<and> (JStr ''Shoes'', JStr ''1'', JStr ''cat=1'') =
             (cat_name (twin_catalogue ! i), cat_shard (twin_catalogue ! i),
              cat_query (twin_catalogue ! i))"
    by simp
  from resolve_first_match [of twin_catalogue "''/women/shoes''"] l
  have b: "\<exists>i<length twin_catalogue. twin_catalogue ! 1 = twin_catalogue ! i
         \<and> url_matches ''/women/shoes'' (twin_catalogue ! i)
         \<and> (\<forall>j<i. \<not> url_matches ''/women/shoes'' (twin_catalogue ! j))"
    by simp
  from s l n a b show ?thesis by blast
qed

text \<open>
  Claim C3 as stated fails on the legacy resolver: a candidate whose \<^verbatim>\<open>name\<close> is
  the query is not returned.
\<close>

theorem resolve_first_match_counterexample:
  "name_matches ''Shoes'' (twin_catalogue ! 0)
   \<and> legacy_find_category twin_catalogue ''Shoes'' = Inl ValueError"
  by (simp add: twin_catalogue_def name_matches_def url_part_plain)

lemma occurs_at_length: "occurs_at sep s i \<Longrightarrow> i + length sep \<le> length s \<or> sep = []"
proof (cases "sep = []")
  case False
  assume "occurs_at sep s i"
  then have "length sep \<le> length (drop i s)"
    unfolding occurs_at_def by (rule prefix_length_le)
  then have "length sep \<le> length s - i" by simp
  moreover from False have "length sep \<noteq> 0" by simp
  ultimately have "i + length sep \<le> length s" by arith
  then show ?thesis ..
qed simp

lemma women_none: "\<not> occurs_at wb_prefix ''/women/shoes'' i"
  using occurs_at_length [of wb_prefix "''/women/shoes''" i] by (auto simp: wb_prefix_def)

lemma women_last: "0 < j \<Longrightarrow> \<not> occurs_at wb_prefix (wb_prefix @ ''/women/shoes'') j"
proof (cases "j < length wb_prefix")
  case True
  assume "0 < j"
  with True show ?thesis using wb_prefix_border_free by (intro no_overlap) simp_all
next
  case False
  show ?thesis
    using occurs_at_length [of wb_prefix "wb_prefix @ ''/women/shoes''" j] False
    by (auto simp: wb_prefix_def)
qed

text \<open>
  Claim C10, as amended. The string compared with a candidate's \<^verbatim>\<open>url\<close> is the
  whole input when the prefix \<^verbatim>\<open>https://www.wildberries.ru\<close> does not occur in it,
  and otherwise the part of the input behind the last occurrence of the prefix. The
  legacy resolver therefore returns the same for prefix + s as for s. The stable
  resolver does so for every flattened list in which no candidate's \<^verbatim>\<open>name\<close> is
  the prefixed string or s itself.
\<close>

theorem resolve_prefix:
  "((\<forall>i. \<not> occurs_at wb_prefix q i) \<longrightarrow> url_part q = q)
   \<and> (\<forall>i. occurs_at wb_prefix q i \<and> (\<forall>j>i. \<not> occurs_at wb_prefix q j) \<longrightarrow>
         url_part q = drop (i + length wb_prefix) q)
   \<and> ((\<forall>c\<in>set catalogue. cat_name c \<noteq> JStr (wb_prefix @ s) \<and> cat_name c \<noteq> JStr s) \<longrightarrow>
         extract_category_data catalogue (wb_prefix @ s) = extract_category_data catalogue s)
   \<and> legacy_find_category catalogue (wb_prefix @ s) = legacy_find_category catalogue s"
  using url_part_spec [of q] stable_prefix_irrelevant [of catalogue s]
        legacy_prefix_irrelevant [of catalogue s]
  by blast

theorem resolve_prefix_witness:
  "\<not> (\<exists>i. occurs_at wb_prefix ''/women/shoes'' i)
   \<and> url_part ''/women/shoes'' = ''/women/shoes''
   \<and> occurs_at wb_prefix (wb_prefix @ ''/women/shoes'') 0
   \<and> \<not> (\<exists>j>0. occurs_at wb_prefix (wb_prefix @ ''/women/shoes'') j)
   \<and> url_part (wb_prefix @ ''/women/shoes'') =
       drop (0 + length wb_prefix) (wb_prefix @ ''/women/shoes'')
   \<and> \<not> (\<exists>c\<in>set twin_catalogue. cat_name c = JStr (wb_prefix @ ''/women/shoes'')
                               \<or> cat_name c = JStr ''/women/shoes'')
   \<and> extract_category_data twin_catalogue (wb_prefix @ ''/women/shoes'') =
       extract_category_data twin_catalogue ''/women/shoes''
   \<and> extract_category_data twin_catalogue ''/women/shoes'' =
       Some (JStr ''Shoes'', JStr ''2'', JStr ''cat=2'')
   \<and> legacy_find_category twin_catalogue (wb_prefix @ ''/women/shoes'') = Inr (twin_catalogue ! 1)"
proof -
  have none: "\<forall>i. \<not> occurs_at wb_prefix ''/women/shoes'' i" using women_none by simp
  have occ: "occurs_at wb_prefix (wb_prefix @ ''/women/shoes'') 0" by (simp add: occurs_at_def)
  have last: "\<forall>j>0. \<not> occurs_at wb_prefix (wb_prefix @ ''/women/shoes'') j"
    using women_last by simp
  have names: "\<forall>c\<in>set twin_catalogue. cat_name c \<noteq> JStr (wb_prefix @ ''/women/shoes'')
      \<and> cat_name c \<noteq> JStr ''/women/shoes''"
    by (simp add: twin_catalogue_def wb_prefix_def)
  have res: "extract_category_data twin_catalogue ''/women/shoes'' =
       Some (JStr ''Shoes'', JStr ''2'', JStr ''cat=2'')"
    by (simp add: twin_catalogue_def url_part_path)
  have leg: "legacy_find_category twin_catalogue ''/women/shoes'' = Inr (twin_catalogue ! 1)"
    by (simp add: twin_catalogue_def url_part_path)
  from resolve_prefix [of "''/women/shoes''" twin_catalogue "''/women/shoes''"] none names
  have a: "url_part ''/women/shoes'' = ''/women/shoes''"
    and b: "extract_category_data twin_catalogue (wb_prefix @ ''/women/shoes'') =
       extract_category_data twin_catalogue ''/women/shoes''"
    and c: "legacy_find_category twin_catalogue (wb_prefix @ ''/women/shoes'') =
       legacy_find_category twin_catalogue ''/women/shoes''"
    by blast+
  from resolve_prefix [of "wb_prefix @ ''/women/shoes''" twin_catalogue "''/women/shoes''"] occ last
  have d: "url_part (wb_prefix @ ''/women/shoes'') =
       drop (0 + length wb_prefix) (wb_prefix @ ''/women/shoes'')"
    by blast
  from none occ last names res leg a b c d show ?thesis by (intro conjI) auto
qed

text \<open>
  Claim C10 as stated fails on the stable resolver: no candidate's \<^verbatim>\<open>name\<close> is
  the prefixed string, yet the input s is resolved by its \<^verbatim>\<open>name\<close> and the
  prefixed input is not resolved at all.
\<close>

theorem resolve_prefix_counterexample:
  "\<not> (\<exists>c\<in>set twin_catalogue. cat_name c = JStr (wb_prefix @ ''Shoes''))
   \<and> extract_category_data twin_catalogue (wb_prefix @ ''Shoes'') = None
   \<and> extract_category_data twin_catalogue ''Shoes'' =
       Some (JStr ''Shoes'', JStr ''1'', JStr ''cat=1'')"
proof -
  have ne: "wb_prefix \<noteq> []" using wb_prefix_border_free by simp
  have "extract_category_data twin_catalogue (wb_prefix @ ''Shoes'') = None"
    using ne by (simp add: twin_catalogue_def url_part_prefixed url_part_plain)
  moreover have "extract_category_data twin_catalogue ''Shoes'' =
       Some (JStr ''Shoes'', JStr ''1'', JStr ''cat=1'')"
    by (simp add: twin_catalogue_def url_part_plain)
  moreover have "\<not> (\<exists>c\<in>set twin_catalogue. cat_name c = JStr (wb_prefix @ ''Shoes''))"
    using ne by (simp add: twin_catalogue_def)
  ultimately show ?thesis by simp
qed


section \<open>Properties of the price conversion\<close>

lemma rhe_upper: "of_int (round_half_even x) \<le> x + 1 / 2"
  unfolding round_half_even_def Let_def by (auto split: if_splits) linarith+

lemma rhe_lower: "x - 1 / 2 \<le> of_int (round_half_even x)"
  unfolding round_half_even_def Let_def by (auto split: if_splits) linarith+

lemma rhe_ge_int: "of_int k \<le> x \<Longrightarrow> k \<le> round_half_even x"
proof -
  assume "of_int k \<le> x"
  then have "k \<le> \<lfloor>x\<rfloor>" by (simp add: le_floor_iff)
  then show ?thesis by (simp add: round_half_even_def Let_def)
qed

lemma rhe_le_int: "x \<le> of_int k \<Longrightarrow> round_half_even x \<le> k"
proof -
  assume a: "x \<le> of_int k"
  then have f: "\<lfloor>x\<rfloor> \<le> k" by (simp add: floor_le_iff) 
  show ?thesis
  proof (cases "x - of_int \<lfloor>x\<rfloor> < 1 / 2")
    case True
    with f show ?thesis by (simp add: round_half_even_def Let_def)
  next
    case False
    then have "of_int \<lfloor>x\<rfloor> < x" by linarith
    with a have "of_int \<lfloor>x\<rfloor> < (of_int k :: rat)" by linarith
    then have "\<lfloor>x\<rfloor> < k" by simp
    then show ?thesis by (simp add: round_half_even_def Let_def)
  qed
qed


lemma round_scaled_nonneg:
  fixes q :: rat
  assumes "6 \<le> m" "of_int n \<le> q" "q \<le> of_int n + 99 / 100"
  shows "of_int n \<le> of_int (round_half_even (q * 2 ^ m)) / (2 ^ m :: rat)"
    and "of_int (round_half_even (q * 2 ^ m)) / (2 ^ m :: rat) < of_int n + 1"
proof -
  let ?P = "(2 ^ m :: rat)"
  have P: "0 < ?P" by simp
  have "(2::rat) ^ 6 \<le> 2 ^ m" using assms(1) by (intro power_increasing) simp_all
  then have P64: "64 \<le> ?P" by simp
  have "of_int (n * 2 ^ m) \<le> q * ?P" using assms(2) P by (simp add: mult_right_mono)
  then have "n * 2 ^ m \<le> round_half_even (q * ?P)" by (rule rhe_ge_int)
  then have "(of_int (n * 2 ^ m) :: rat) \<le> of_int (round_half_even (q * ?P))" by (simp only: of_int_le_iff)
  then have "of_int n * ?P \<le> of_int (round_half_even (q * ?P))" by simp
  then show "of_int n \<le> of_int (round_half_even (q * ?P)) / ?P"
    using P by (simp add: pos_le_divide_eq)
  have "of_int (round_half_even (q * ?P)) \<le> q * ?P + 1 / 2" by (rule rhe_upper)
  also have "\<dots> \<le> (of_int n + 99 / 100) * ?P + 1 / 2" using assms(3) P by (simp add: mult_right_mono)
  also have "\<dots> < (of_int n + 1) * ?P" using P64 by (simp add: algebra_simps)
  finally show "of_int (round_half_even (q * ?P)) / ?P < of_int n + 1"
    using P by (simp add: pos_divide_less_eq)
qed

lemma round_scaled_nonpos:
  fixes q :: rat
  assumes "6 \<le> m" "q \<le> - of_int n" "- of_int n - 99 / 100 \<le> q"
  shows "of_int (round_half_even (q * 2 ^ m)) / (2 ^ m :: rat) \<le> - of_int n"
    and "- of_int n - 1 < of_int (round_half_even (q * 2 ^ m)) / (2 ^ m :: rat)"
proof -
  let ?P = "(2 ^ m :: rat)"
  have P: "0 < ?P" by simp
  have "(2::rat) ^ 6 \<le> 2 ^ m" using assms(1) by (intro power_increasing) simp_all
  then have P64: "64 \<le> ?P" by simp
  have "q * ?P \<le> - of_int n * ?P" using assms(2) P by (intro mult_right_mono) simp_all
  then have "q * ?P \<le> of_int (- n * 2 ^ m)" by simp
  then have "round_half_even (q * ?P) \<le> - n * 2 ^ m" by (rule rhe_le_int)
  then have "(of_int (round_half_even (q * ?P)) :: rat) \<le> of_int (- n * 2 ^ m)" by (simp only: of_int_le_iff)
  then have "of_int (round_half_even (q * ?P)) \<le> - of_int n * ?P" by simp
  then show "of_int (round_half_even (q * ?P)) / ?P \<le> - of_int n"
    using P by (simp add: pos_divide_le_eq)
  have "(- of_int n - 1) * ?P < (- of_int n - 99 / 100) * ?P - 1 / 2" using P64 by (simp add: algebra_simps)
  also have "\<dots> \<le> q * ?P - 1 / 2" using assms(3) P by (simp add: mult_right_mono)
  also have "\<dots> \<le> of_int (round_half_even (q * ?P))" by (rule rhe_lower)
  finally show "- of_int n - 1 < of_int (round_half_even (q * ?P)) / ?P"
    using P by (simp add: pos_less_divide_eq)
qed


lemma binade_le:
  assumes "0 < a" "a < 100 * 2 ^ 47"
  shows "binade a 100 \<le> 46"
proof -
  define K where "K = nat (bitlen 100)"
  have k: "bitlen 100 = int K" using bitlen_nonneg [of 100] by (simp add: K_def)
  define y :: int where "y = 2 ^ 47 * 2 ^ K"
  have "a * 2 ^ K < 100 * y" using assms by (simp add: y_def)
  then have "(a * 2 ^ K) div 100 < y" by linarith
  then have "(a * 2 ^ K) div 100 < 2 ^ nat (47 + int K)"
    by (simp add: y_def nat_add_distrib power_add)
  then have "bitlen ((a * 2 ^ K) div 100) \<le> 47 + int K"
    by (simp add: bitlen_le_iff_power)
  then show ?thesis by (simp add: binade_def Let_def k)
qed

lemma pow2_neg: "e \<le> 46 \<Longrightarrow> pow2 (e - 52) = 1 / 2 ^ nat (52 - e)"
  by (simp add: pow2_def)

lemma pow2_1024: "(2::rat) ^ 47 \<le> pow2 1024"
proof -
  have "(2::rat) ^ 47 \<le> 2 ^ 1024" by (intro power_increasing) simp_all
  then show ?thesis by (simp add: pow2_def)
qed

lemma quotient_bounds:
  fixes a :: int
  assumes "0 \<le> a"
  shows "(of_int (a div 100) :: rat) \<le> of_int a / 100"
    and "(of_int a :: rat) / 100 \<le> of_int (a div 100) + 99 / 100"
proof -
  have a: "a = 100 * (a div 100) + a mod 100" by simp
  have m: "0 \<le> a mod 100" "a mod 100 \<le> 99" by simp_all
  have "(of_int a :: rat) = 100 * of_int (a div 100) + of_int (a mod 100)"
    by (subst a) (simp only: of_int_add of_int_mult of_int_numeral)
  moreover have "(0::rat) \<le> of_int (a mod 100)" "(of_int (a mod 100) :: rat) \<le> 99"
    using m by (simp_all only: of_int_0_le_iff of_int_le_numeral_iff)
  ultimately show "(of_int (a div 100) :: rat) \<le> of_int a / 100"
    and "(of_int a :: rat) / 100 \<le> of_int (a div 100) + 99 / 100"
    by simp_all
qed

lemma major_units_pos:
  assumes "0 < a" "a < 100 * 2 ^ 47"
  shows "major_units (JInt a) = Inr (a div 100)"
proof -
  define e where "e = max (binade \<bar>a\<bar> 100) (- 1022)"
  define m where "m = nat (52 - e)"
  define r :: rat where "r = of_int (round_half_even (of_int a / 100 * 2 ^ m)) / 2 ^ m"
  have e: "e \<le> 46" using binade_le [OF assms] assms(1) by (simp add: e_def)
  then have m: "6 \<le> m" by (simp add: m_def)
  have ulp: "pow2 (e - 52) = 1 / 2 ^ m" using e by (simp add: pow2_neg m_def)
  note qb = quotient_bounds [of a]
  have lo: "of_int (a div 100) \<le> r" and hi: "r < of_int (a div 100) + 1"
    unfolding r_def using round_scaled_nonneg [OF m, of "a div 100" "of_int a / 100"] qb assms(1)
    by simp_all
  have "a div 100 < 2 ^ 47" using assms(2) by linarith
  then have "a div 100 + 1 \<le> 2 ^ 47" by simp
  then have "(of_int (a div 100 + 1) :: rat) \<le> of_int (2 ^ 47)" by (simp only: of_int_le_iff)
  then have "(of_int (a div 100) :: rat) + 1 \<le> 2 ^ 47" by simp
  with hi pow2_1024 have "r < pow2 1024" by linarith
  moreover have "0 \<le> a div 100" using assms(1) by simp
  then have "(0::rat) \<le> of_int (a div 100)" by (simp only: of_int_0_le_iff)
  with lo have r0: "0 \<le> r" by linarith
  ultimately have no: "\<not> pow2 1024 \<le> \<bar>r\<bar>" by simp
  have nd: "nearest_double a 100 = Inr r"
    using assms(1) no unfolding nearest_double_def Let_def e_def [symmetric] ulp r_def
    by simp
  have "\<lfloor>r\<rfloor> = a div 100" using lo hi by (intro floor_unique) simp_all
  with r0 nd show ?thesis by (simp add: major_units_def py_int_def)
qed

lemma major_units_neg:
  assumes "a < 0" "- (100 * 2 ^ 47) < a"
  shows "major_units (JInt a) = Inr (- ((- a) div 100))"
proof -
  define b where "b = - a"
  have b: "0 < b" "b < 100 * 2 ^ 47" "\<bar>a\<bar> = b" "a = - b" using assms by (simp_all add: b_def)
  define e where "e = max (binade \<bar>a\<bar> 100) (- 1022)"
  define m where "m = nat (52 - e)"
  define r :: rat where "r = of_int (round_half_even (of_int a / 100 * 2 ^ m)) / 2 ^ m"
  have e: "e \<le> 46" using binade_le [OF b(1,2)] b(3) by (simp add: e_def)
  then have m: "6 \<le> m" by (simp add: m_def)
  have ulp: "pow2 (e - 52) = 1 / 2 ^ m" using e by (simp add: pow2_neg m_def)
  note qb = quotient_bounds [of b]
  have q: "(of_int a :: rat) / 100 = - (of_int b / 100)" by (simp add: b(4))
  have hi: "r \<le> - of_int (b div 100)" and lo: "- of_int (b div 100) - 1 < r"
    unfolding r_def using round_scaled_nonpos [OF m, of "of_int a / 100" "b div 100"] qb b(1) q
    by simp_all
  have "b div 100 < 2 ^ 47" using b(2) by linarith
  then have "b div 100 + 1 \<le> 2 ^ 47" by simp
  then have "(of_int (b div 100 + 1) :: rat) \<le> of_int (2 ^ 47)" by (simp only: of_int_le_iff)
  then have "(of_int (b div 100) :: rat) + 1 \<le> 2 ^ 47" by simp
  with lo pow2_1024 have "- pow2 1024 < r" by linarith
  moreover have "0 \<le> b div 100" using b(1) by simp
  then have "(0::rat) \<le> of_int (b div 100)" by (simp only: of_int_0_le_iff)
  with hi have r0: "r \<le> 0" by linarith
  ultimately have no: "\<not> pow2 1024 \<le> \<bar>r\<bar>" by simp
  have nd: "nearest_double a 100 = Inr r"
    using assms(1) no unfolding nearest_double_def Let_def e_def [symmetric] ulp r_def
    by simp
  have c: "\<lceil>r\<rceil> = - (b div 100)" using lo hi by (intro ceiling_unique) simp_all
  have "py_int r = - (b div 100)"
  proof (cases "r = 0")
    case True
    with c show ?thesis by (simp add: py_int_def)
  next
    case False
    with r0 have "r < 0" by simp
    with c show ?thesis by (simp add: py_int_def)
  qed
  with nd show ?thesis by (simp add: major_units_def b_def)
qed

lemma major_units_zero: "major_units (JInt 0) = Inr 0"
  by (simp add: major_units_def nearest_double_def py_int_def)


lemma ebind_Inr_iff: "ebind m f = Inr y \<longleftrightarrow> (\<exists>x. m = Inr x \<and> f x = Inr y)"
  by (cases m) (simp_all add: ebind_def)

text \<open>
  Claim C7, as amended. For every integer value \<open>v\<close> with \<open>0 \<le> v < 100 * 2^47\<close> the
  derived price is \<open>v div 100\<close>, the floor of \<open>v / 100\<close> (123456 gives 1234); for
  \<open>- 100 * 2^47 < v < 0\<close> it is the quotient truncated towards zero. Both programs
  apply this one conversion to \<^verbatim>\<open>priceU\<close> and to \<^verbatim>\<open>salePriceU\<close> of every
  product they parse.
\<close>

theorem price_conversion:
  "(0 \<le> v \<and> v < 100 * 2 ^ 47 \<longrightarrow> major_units (JInt v) = Inr (v div 100))
   \<and> (- (100 * 2 ^ 47) < v \<and> v < 0 \<longrightarrow> major_units (JInt v) = Inr (- ((- v) div 100)))
   \<and> (card_of_item item = Inr c \<longrightarrow>
        (\<exists>p s. getitem item ''priceU'' = Inr p \<and> getitem item ''salePriceU'' = Inr s
           \<and> major_units p = Inr (Price c) \<and> major_units s = Inr (Discounted_price c)))
   \<and> (legacy_product_of_item (JObj kvs) = Inr lp \<longrightarrow>
        major_units (dict_get kvs ''priceU'') = Inr (p_price lp)
        \<and> major_units (dict_get kvs ''salePriceU'') = Inr (p_salePriceU lp))"
proof (intro conjI impI)
  assume "0 \<le> v \<and> v < 100 * 2 ^ 47"
  then show "major_units (JInt v) = Inr (v div 100)"
    using major_units_pos [of v] major_units_zero by (cases "v = 0") auto
next
  assume "- (100 * 2 ^ 47) < v \<and> v < 0"
  then show "major_units (JInt v) = Inr (- ((- v) div 100))"
    using major_units_neg [of v] by simp
next
  assume "card_of_item item = Inr c"
  then show "\<exists>p s. getitem item ''priceU'' = Inr p \<and> getitem item ''salePriceU'' = Inr s
           \<and> major_units p = Inr (Price c) \<and> major_units s = Inr (Discounted_price c)"
    unfolding card_of_item_def by (auto simp: ebind_Inr_iff)
next
  assume a: "legacy_product_of_item (JObj kvs) = Inr lp"
  then show "major_units (dict_get kvs ''priceU'') = Inr (p_price lp)"
    unfolding legacy_product_of_item_def by (auto simp: ebind_Inr_iff)
  from a show "major_units (dict_get kvs ''salePriceU'') = Inr (p_salePriceU lp)"
    unfolding legacy_product_of_item_def by (auto simp: ebind_Inr_iff)
qed

lemma major_units_123456: "major_units (JInt 123456) = Inr 1234"
  using major_units_pos [of 123456] by simp

lemma major_units_99999: "major_units (JInt 99999) = Inr 999"
  using major_units_pos [of 99999] by simp

lemma card_of_shoe_item: "card_of_item (JObj shoe_fields) = Inr shoe_card"
  by (simp add: card_of_item_def shoe_fields_def shoe_card_def ebind_def
        major_units_123456 major_units_99999)

lemma shoe_prices:
  "dict_get shoe_fields ''priceU'' = JInt 123456"
  "dict_get shoe_fields ''salePriceU'' = JInt 99999"
  "getitem (JObj shoe_fields) ''priceU'' = Inr (JInt 123456)"
  "getitem (JObj shoe_fields) ''salePriceU'' = Inr (JInt 99999)"
  by (simp_all add: dict_get_def shoe_fields_def)

lemma legacy_product_of_shoe_item: "\<exists>lp. legacy_product_of_item (JObj shoe_fields) = Inr lp"
  by (simp add: legacy_product_of_item_def ebind_def shoe_prices
        major_units_123456 major_units_99999)

theorem price_conversion_witness:
  "(0::int) \<le> 123456 \<and> (123456::int) < 100 * 2 ^ 47
   \<and> major_units (JInt 123456) = Inr 1234
   \<and> - (100 * 2 ^ 47) < (- 150 :: int) \<and> (- 150 :: int) < 0
   \<and> major_units (JInt (- 150)) = Inr (- 1)
   \<and> card_of_item (JObj shoe_fields) = Inr shoe_card
   \<and> getitem (JObj shoe_fields) ''priceU'' = Inr (JInt 123456)
   \<and> getitem (JObj shoe_fields) ''salePriceU'' = Inr (JInt 99999)
   \<and> major_units (JInt 123456) = Inr (Price shoe_card)
   \<and> major_units (JInt 99999) = Inr (Discounted_price shoe_card)
   \<and> (\<exists>lp. legacy_product_of_item (JObj shoe_fields) = Inr lp
         \<and> p_price lp = 1234 \<and> p_salePriceU lp = 999)"
proof -
  from legacy_product_of_shoe_item obtain lp
    where lp: "legacy_product_of_item (JObj shoe_fields) = Inr lp" ..
  from price_conversion [of 123456 "JObj shoe_fields" shoe_card shoe_fields lp]
    lp card_of_shoe_item shoe_prices major_units_123456 major_units_99999
  have p: "major_units (JInt 123456) = Inr 1234"
    and c: "major_units (JInt 123456) = Inr (Price shoe_card)"
       "major_units (JInt 99999) = Inr (Discounted_price shoe_card)"
    and l: "p_price lp = 1234" "p_salePriceU lp = 999"
    by auto
  from price_conversion [of "- 150" "JObj shoe_fields" shoe_card shoe_fields lp]
  have n: "major_units (JInt (- 150)) = Inr (- 1)" by simp
  from p n c l lp card_of_shoe_item shoe_prices show ?thesis by simp
qed

lemma rhe_unique:
  assumes "of_int k - 1 / 2 < x" "x < of_int k + 1 / 2"
  shows "round_half_even x = k"
proof -
  from rhe_upper [of x] assms(2) have "(of_int (round_half_even x) :: rat) < of_int (k + 1)" by simp
  then have "round_half_even x < k + 1" by (simp only: of_int_less_iff)
  moreover from rhe_lower [of x] assms(1) have "(of_int (k - 1) :: rat) < of_int (round_half_even x)"
    by simp
  then have "k - 1 < round_half_even x" by (simp only: of_int_less_iff)
  ultimately show ?thesis by simp
qed

lemma bitlen_eq: "0 < n \<Longrightarrow> 2 ^ (n - 1) \<le> x \<Longrightarrow> x < 2 ^ n \<Longrightarrow> bitlen x = int n"
proof -
  assume n: "0 < n" and lo: "2 ^ (n - 1) \<le> x" and hi: "x < 2 ^ n"
  from hi have "bitlen x \<le> int n" by (simp add: bitlen_le_iff_power)
  moreover from lo n have "int n \<le> bitlen x" by (simp add: bitlen_ge_iff_power)
  ultimately show ?thesis by simp
qed

lemma pow2_1024_large: "(2::rat) ^ 60 \<le> pow2 1024"
proof -
  have "(2::rat) ^ 60 \<le> 2 ^ 1024" by (intro power_increasing) simp_all
  then show ?thesis by (simp add: pow2_def)
qed

lemma major_units_large: "major_units (JInt 14073748835532899) = Inr 140737488355329"
proof -
  have b100: "bitlen 100 = 7" using bitlen_eq [of 7 100] by simp
  have bx: "bitlen 18014398509482110 = 55" using bitlen_eq [of 55 18014398509482110] by simp
  have e: "max (binade \<bar>14073748835532899\<bar> 100) (- 1022) = 47"
    by (simp add: binade_def Let_def b100 bx)
  have ulp: "pow2 (47 - 52) = 1 / 32" by (simp add: pow2_def)
  have r: "round_half_even (of_int 14073748835532899 / of_int 100 / (1 / 32)) = 4503599627370528"
    by (rule rhe_unique) simp_all
  have "(140737488355329::rat) < 2 ^ 60" by simp
  with pow2_1024_large have no: "\<not> pow2 1024 \<le> \<bar>140737488355329\<bar>" by simp
  have "nearest_double 14073748835532899 100 = Inr 140737488355329"
    unfolding nearest_double_def Let_def e ulp r using no by simp
  then show ?thesis by (simp add: major_units_def py_int_def)
qed

text \<open>
  Claim C7 as stated fails outside that range: a negative value is truncated towards
  zero, not floored, and from \<open>100 * 2^47\<close> on the double nearest to the quotient
  can be the next integer.
\<close>

theorem price_conversion_counterexample:
  "major_units (JInt (- 150)) = Inr (- 1) \<and> (- 150 :: int) div 100 = - 2
   \<and> major_units (JInt 14073748835532899) = Inr 140737488355329
   \<and> (14073748835532899 :: int) div 100 = 140737488355328"
proof -
  have "major_units (JInt (- 150)) = Inr (- 1)" using major_units_neg [of "- 150"] by simp
  moreover note major_units_large
  ultimately show ?thesis by simp
qed

section \<open>Properties of the page parsers\<close>

lemma ebind_Inl_iff: "ebind m f = Inl e \<longleftrightarrow> m = Inl e \<or> (\<exists>x. m = Inr x \<and> f x = Inl e)"
  by (cases m) (simp_all add: ebind_def)

lemma getitem_no_schema: "getitem j k \<noteq> Inl SchemaError"
  by (cases j) (auto split: option.splits)

lemma py_iter_no_schema: "py_iter j \<noteq> Inl SchemaError"
  by (cases j) auto

lemma nearest_double_no_schema: "nearest_double a b \<noteq> Inl SchemaError"
  by (simp add: nearest_double_def Let_def)

lemma major_units_no_schema: "major_units v \<noteq> Inl SchemaError"
  by (cases v) (auto simp: major_units_def nearest_double_no_schema split: sum.splits prod.splits)

lemma card_of_item_no_schema: "card_of_item item \<noteq> Inl SchemaError"
  unfolding card_of_item_def
  by (simp add: ebind_Inl_iff getitem_no_schema major_units_no_schema)

lemma legacy_product_no_schema: "legacy_product_of_item item \<noteq> Inl SchemaError"
  unfolding legacy_product_of_item_def
  by (cases item) (simp_all add: ebind_Inl_iff major_units_no_schema)

lemma map_exn_no_schema:
  "(\<And>x. f x \<noteq> Inl SchemaError) \<Longrightarrow> map_exn f xs \<noteq> Inl SchemaError"
  by (induction xs) (auto simp: ebind_Inl_iff)

lemma parse_no_schema:
  "get_products_on_page page \<noteq> Inl SchemaError"
  "legacy_extract_product_data page \<noteq> Inl SchemaError"
  unfolding get_products_on_page_def legacy_extract_product_data_def
  by (simp_all add: ebind_Inl_iff getitem_no_schema py_iter_no_schema
        map_exn_no_schema card_of_item_no_schema legacy_product_no_schema)

text \<open>
  Claim C6, as amended. Either parser returns the empty list, without raising, for a
  response whose \<^verbatim>\<open>data.products\<close> is the empty list. For a response that is a
  JSON object without \<^verbatim>\<open>data\<close> it raises \<^verbatim>\<open>KeyError('data')\<close>, and
  \<^verbatim>\<open>KeyError('products')\<close> when \<^verbatim>\<open>data\<close> is an object without
  \<^verbatim>\<open>products\<close>. Neither parser raises \<open>SchemaError\<close> on any response.
\<close>

theorem parse_empty_or_missing:
  "(getitem page ''data'' = Inr d \<and> getitem d ''products'' = Inr (JArr []) \<longrightarrow>
      get_products_on_page page = Inr [] \<and> legacy_extract_product_data page = Inr [])
   \<and> (map_of kvs ''data'' = None \<longrightarrow>
        get_products_on_page (JObj kvs) = Inl (KeyError ''data'')
        \<and> legacy_extract_product_data (JObj kvs) = Inl (KeyError ''data''))
   \<and> (map_of kvs ''data'' = Some (JObj dkvs) \<and> map_of dkvs ''products'' = None \<longrightarrow>
        get_products_on_page (JObj kvs) = Inl (KeyError ''products'')
        \<and> legacy_extract_product_data (JObj kvs) = Inl (KeyError ''products''))
   \<and> get_products_on_page page \<noteq> Inl SchemaError
   \<and> legacy_extract_product_data page \<noteq> Inl SchemaError"
  by (simp add: parse_no_schema)
     (simp add: get_products_on_page_def legacy_extract_product_data_def ebind_def)

theorem parse_empty_or_missing_witness:
  "getitem empty_page ''data'' = Inr (JObj [(''products'', JArr [])])
   \<and> getitem (JObj [(''products'', JArr [])]) ''products'' = Inr (JArr [])
   \<and> get_products_on_page empty_page = Inr [] \<and> legacy_extract_product_data empty_page = Inr []
   \<and> map_of [(''error'', JStr ''bad request'')] ''data'' = None
   \<and> get_products_on_page (JObj [(''error'', JStr ''bad request'')]) = Inl (KeyError ''data'')
   \<and> legacy_extract_product_data (JObj [(''error'', JStr ''bad request'')]) = Inl (KeyError ''data'')
   \<and> map_of [(''data'', JObj [(''total'', JInt 0)])] ''data'' = Some (JObj [(''total'', JInt 0)])
   \<and> map_of [(''total'', JInt 0)] ''products'' = None
   \<and> get_products_on_page (JObj [(''data'', JObj [(''total'', JInt 0)])]) = Inl (KeyError ''products'')
   \<and> legacy_extract_product_data (JObj [(''data'', JObj [(''total'', JInt 0)])]) =
       Inl (KeyError ''products'')"
proof -
  have a: "getitem empty_page ''data'' = Inr (JObj [(''products'', JArr [])])"
    "getitem (JObj [(''products'', JArr [])]) ''products'' = Inr (JArr [])"
    by (simp_all add: empty_page_def)
  have b: "map_of [(''error'', JStr ''bad request'')] ''data'' = None" by simp
  have c: "map_of [(''data'', JObj [(''total'', JInt 0)])] ''data'' = Some (JObj [(''total'', JInt 0)])"
    "map_of [(''total'', JInt 0)] ''products'' = None" by simp_all
  from parse_empty_or_missing [of empty_page "JObj [(''products'', JArr [])]"
      "[(''error'', JStr ''bad request'')]" "[]"] a b
  have 1: "get_products_on_page empty_page = Inr []" "legacy_extract_product_data empty_page = Inr []"
    "get_products_on_page (JObj [(''error'', JStr ''bad request'')]) = Inl (KeyError ''data'')"
    "legacy_extract_product_data (JObj [(''error'', JStr ''bad request'')]) = Inl (KeyError ''data'')"
    by blast+
  from parse_empty_or_missing [of empty_page "JObj [(''products'', JArr [])]"
      "[(''data'', JObj [(''total'', JInt 0)])]" "[(''total'', JInt 0)]"] c
  have 2: "get_products_on_page (JObj [(''data'', JObj [(''total'', JInt 0)])]) = Inl (KeyError ''products'')"
    "legacy_extract_product_data (JObj [(''data'', JObj [(''total'', JInt 0)])]) =
       Inl (KeyError ''products'')"
    by blast+
  from a b c 1 2 show ?thesis by blast
qed

text \<open>
  Claim C6 as stated fails: on a response without \<^verbatim>\<open>data\<close> the exception raised
  is Python's own \<^verbatim>\<open>KeyError\<close>, not \<open>SchemaError\<close>.
\<close>

theorem parse_empty_or_missing_counterexample:
  "get_products_on_page (JObj []) = Inl (KeyError ''data'')
   \<and> get_products_on_page (JObj []) \<noteq> Inl SchemaError
   \<and> legacy_extract_product_data (JObj []) = Inl (KeyError ''data'')
   \<and> legacy_extract_product_data (JObj []) \<noteq> Inl SchemaError"
  by (simp add: get_products_on_page_def legacy_extract_product_data_def ebind_def)

section \<open>Properties of the page loops\<close>

lemma add_data_from_page_records:
  "add_data_from_page http url cards =
     (case page_records http url of
        Inl e \<Rightarrow> Inl e
      | Inr page_data \<Rightarrow>
          if page_data \<noteq> [] then Inr (False, cards @ page_data) else Inr (True, cards))"
  by (simp add: add_data_from_page_def page_records_def ebind_def split: sum.splits)

lemma load_pages_good:
  "\<forall>p\<in>set ps. page_records http (build p) = Inr (recs p) \<and> recs p \<noteq> [] \<Longrightarrow>
   load_pages build http (ps @ rest) cards =
     (case load_pages build http rest (cards @ concat (map recs ps)) of
        (requested, final, raised) \<Rightarrow> (map build ps @ requested, final, raised))"
proof (induction ps arbitrary: cards)
  case Nil
  show ?case by simp
next
  case (Cons p ps)
  then have p: "add_data_from_page http (build p) cards = Inr (False, cards @ recs p)"
    by (simp add: add_data_from_page_records)
  from Cons have "load_pages build http (ps @ rest) (cards @ recs p) =
     (case load_pages build http rest ((cards @ recs p) @ concat (map recs ps)) of
        (requested, final, raised) \<Rightarrow> (map build ps @ requested, final, raised))"
    by simp
  with p show ?case by (simp split: prod.splits)
qed

lemma load_pages_empty:
  "page_records http (build p) = Inr [] \<Longrightarrow>
     load_pages build http (p # rest) cards = ([build p], cards, None)"
  by (simp add: add_data_from_page_records)

lemma load_pages_raise:
  "page_records http (build p) = Inl e \<Longrightarrow>
     load_pages build http (p # rest) cards = ([build p], cards, Some e)"
  by (simp add: add_data_from_page_records)

lemma retry_from_found:
  "attempts (n + k) = Inr data \<Longrightarrow> \<forall>m<k. \<exists>e. attempts (n + m) = Inl e \<Longrightarrow>
     retry_from attempts n = Some (Suc (n + k), data)"
proof (induction k arbitrary: n)
  case 0
  then show ?case by (subst retry_from.simps) simp
next
  case (Suc k)
  from Suc.prems(2) obtain e where e: "attempts n = Inl e" by force
  have "retry_from attempts (Suc n) = Some (Suc (Suc n + k), data)"
  proof (rule Suc.IH)
    show "attempts (Suc n + k) = Inr data" using Suc.prems(1) by simp
    show "\<forall>m<k. \<exists>e. attempts (Suc n + m) = Inl e"
    proof (intro allI impI)
      fix m assume "m < k"
      then have "Suc m < Suc k" by simp
      with Suc.prems(2) have "\<exists>e. attempts (n + Suc m) = Inl e" by blast
      then show "\<exists>e. attempts (Suc n + m) = Inl e" by simp
    qed
  qed
  with e show ?case by (subst retry_from.simps) simp
qed

lemma retry_from_Some:
  "retry_from attempts n = Some r \<Longrightarrow> \<exists>m\<ge>n. \<exists>data. attempts m = Inr data"
proof (induction rule: retry_from.raw_induct [rotated 1, consumes 1])
  case (1 rf attempts n r)
  show ?case
  proof (cases "attempts n")
    case (Inl e)
    with 1(2) have "rf attempts (Suc n) = Some r" by simp
    from 1(1) [OF this] obtain m where "Suc n \<le> m" "\<exists>data. attempts m = Inr data" by blast
    then show ?thesis by (intro exI [of _ m]) simp
  next
    case (Inr data)
    then show ?thesis by blast
  qed
qed

lemma retry_from_never:
  "\<forall>m. \<exists>e. attempts m = Inl e \<Longrightarrow> retry_from attempts n = None"
proof (rule ccontr)
  assume a: "\<forall>m. \<exists>e. attempts m = Inl e" and "retry_from attempts n \<noteq> None"
  then obtain r where "retry_from attempts n = Some r" by auto
  from retry_from_Some [OF this] obtain m data where "attempts m = Inr data" by blast
  with a show False by (metis sum.distinct(1))
qed


lemma collect_pages_parse:
  "collect_pages http (page # pages) products =
     (case fetch_and_parse http page of
        None \<Rightarrow> None
      | Some (n, Inl e) \<Rightarrow> Some ([(page, n)], Inl e)
      | Some (n, Inr product_list) \<Rightarrow>
          if product_list \<noteq> []
          then (case collect_pages http pages (products @ product_list) of
                  None \<Rightarrow> None
                | Some (fetched, result) \<Rightarrow> Some ((page, n) # fetched, result))
          else Some ([(page, n)], Inr products))"
  by (simp add: fetch_and_parse_def split: option.splits sum.splits)

lemma collect_pages_good:
  "\<forall>p\<in>set ps. fetch_and_parse http p = Some (tries p, Inr (recs p)) \<and> recs p \<noteq> [] \<Longrightarrow>
   collect_pages http (ps @ rest) products =
     (case collect_pages http rest (products @ concat (map recs ps)) of
        None \<Rightarrow> None
      | Some (fetched, result) \<Rightarrow> Some (map (\<lambda>p. (p, tries p)) ps @ fetched, result))"
proof (induction ps arbitrary: products)
  case Nil
  show ?case by (simp split: option.splits)
next
  case (Cons p ps)
  from Cons have "collect_pages http (ps @ rest) (products @ recs p) =
     (case collect_pages http rest ((products @ recs p) @ concat (map recs ps)) of
        None \<Rightarrow> None
      | Some (fetched, result) \<Rightarrow> Some (map (\<lambda>p. (p, tries p)) ps @ fetched, result))"
    by simp
  moreover from Cons.prems have "fetch_and_parse http p = Some (tries p, Inr (recs p))" "recs p \<noteq> []"
    by simp_all
  ultimately show ?case
    by (simp add: collect_pages_parse del: collect_pages.simps split: option.splits)
qed

lemma collect_pages_empty:
  "fetch_and_parse http p = Some (n, Inr []) \<Longrightarrow>
     collect_pages http (p # rest) products = Some ([(p, n)], Inr products)"
  by (simp add: collect_pages_parse del: collect_pages.simps)

lemma collect_pages_raise:
  "fetch_and_parse http p = Some (n, Inl e) \<Longrightarrow>
     collect_pages http (p # rest) products = Some ([(p, n)], Inl e)"
  by (simp add: collect_pages_parse del: collect_pages.simps)

lemma collect_pages_diverge:
  "fetch_and_parse http p = None \<Longrightarrow> collect_pages http (p # rest) products = None"
  by (simp add: collect_pages_parse del: collect_pages.simps)

lemma fetch_and_parse_never:
  "\<forall>i. \<exists>e. http p i = Inl e \<Longrightarrow> fetch_and_parse http p = None"
  by (simp add: fetch_and_parse_def scrape_page_def retry_from_never)

lemma upt_split: "a \<le> p \<Longrightarrow> p < b \<Longrightarrow> [a..<b] = [a..<p] @ p # [Suc p..<b]"
proof -
  assume a: "a \<le> p" and b: "p < b"
  from a have "[a..<p + (b - p)] = [a..<p] @ [p..<p + (b - p)]" by (rule upt_add_eq_append)
  with b have "[a..<b] = [a..<p] @ [p..<b]" by simp
  with b show ?thesis by (simp add: upt_conv_Cons)
qed

lemma stable_until_empty:
  assumes "k < 100"
    and "\<forall>p\<in>{1..k}. page_records http (build p) = Inr (recs p) \<and> recs p \<noteq> []"
    and "page_records http (build (Suc k)) = Inr []"
  shows "get_all_products_in_category build http cards =
           (map build [1..<Suc (Suc k)], cards @ concat (map recs [1..<Suc k]), None)"
proof -
  have s: "[1..<101] = [1..<Suc k] @ Suc k # [Suc (Suc k)..<101]"
    using assms(1) by (intro upt_split) simp_all
  have g: "\<forall>p\<in>set [1..<Suc k]. page_records http (build p) = Inr (recs p) \<and> recs p \<noteq> []"
    using assms(2) by auto
  show ?thesis
    unfolding get_all_products_in_category_def s
    by (simp only: load_pages_good [OF g] load_pages_empty [of http build "Suc k", OF assms(3)]) simp
qed

lemma stable_until_raise:
  assumes "1 \<le> p" "p \<le> 100"
    and "\<forall>q\<in>{1..<p}. page_records http (build q) = Inr (recs q) \<and> recs q \<noteq> []"
    and "page_records http (build p) = Inl e"
  shows "get_all_products_in_category build http cards =
           (map build [1..<Suc p], cards @ concat (map recs [1..<p]), Some e)"
proof -
  have s: "[1..<101] = [1..<p] @ p # [Suc p..<101]"
    using assms(1,2) by (intro upt_split) simp_all
  have g: "\<forall>q\<in>set [1..<p]. page_records http (build q) = Inr (recs q) \<and> recs q \<noteq> []"
    using assms(3) by auto
  show ?thesis
    unfolding get_all_products_in_category_def s
    using assms(1) by (simp only: load_pages_good [OF g] load_pages_raise [of http build p e, OF assms(4)]) simp
qed

lemma stable_ceiling:
  assumes "\<forall>p\<in>{1..100}. page_records http (build p) = Inr (recs p) \<and> recs p \<noteq> []"
  shows "get_all_products_in_category build http cards =
           (map build [1..<101], cards @ concat (map recs [1..<101]), None)"
proof -
  have g: "\<forall>p\<in>set [1..<101]. page_records http (build p) = Inr (recs p) \<and> recs p \<noteq> []"
    using assms by auto
  from load_pages_good [OF g, of "[]" cards] show ?thesis
    unfolding get_all_products_in_category_def by simp
qed

lemma legacy_until_empty:
  assumes "k < 50"
    and "\<forall>p\<in>{1..k}. fetch_and_parse http p = Some (tries p, Inr (recs p)) \<and> recs p \<noteq> []"
    and "fetch_and_parse http (Suc k) = Some (n, Inr [])"
  shows "collect_products http =
           Some (map (\<lambda>p. (p, tries p)) [1..<Suc k] @ [(Suc k, n)], Inr (concat (map recs [1..<Suc k])))"
proof -
  have s: "[1..<51] = [1..<Suc k] @ Suc k # [Suc (Suc k)..<51]"
    using assms(1) by (intro upt_split) simp_all
  have g: "\<forall>p\<in>set [1..<Suc k]. fetch_and_parse http p = Some (tries p, Inr (recs p)) \<and> recs p \<noteq> []"
    using assms(2) by auto
  show ?thesis
    unfolding collect_products_def s
    by (simp only: collect_pages_good [OF g] collect_pages_empty [OF assms(3)]) simp
qed

lemma legacy_until_raise:
  assumes "1 \<le> p" "p \<le> 50"
    and "\<forall>q\<in>{1..<p}. fetch_and_parse http q = Some (tries q, Inr (recs q)) \<and> recs q \<noteq> []"
    and "fetch_and_parse http p = Some (n, Inl e)"
  shows "collect_products http = Some (map (\<lambda>q. (q, tries q)) [1..<p] @ [(p, n)], Inl e)"
proof -
  have s: "[1..<51] = [1..<p] @ p # [Suc p..<51]"
    using assms(1,2) by (intro upt_split) simp_all
  have g: "\<forall>q\<in>set [1..<p]. fetch_and_parse http q = Some (tries q, Inr (recs q)) \<and> recs q \<noteq> []"
    using assms(3) by auto
  show ?thesis
    unfolding collect_products_def s
    by (simp only: collect_pages_good [OF g] collect_pages_raise [OF assms(4)]) simp
qed

lemma legacy_until_diverge:
  assumes "1 \<le> p" "p \<le> 50"
    and "\<forall>q\<in>{1..<p}. fetch_and_parse http q = Some (tries q, Inr (recs q)) \<and> recs q \<noteq> []"
    and "\<forall>i. \<exists>e. http p i = Inl e"
  shows "collect_products http = None"
proof -
  have s: "[1..<51] = [1..<p] @ p # [Suc p..<51]"
    using assms(1,2) by (intro upt_split) simp_all
  have g: "\<forall>q\<in>set [1..<p]. fetch_and_parse http q = Some (tries q, Inr (recs q)) \<and> recs q \<noteq> []"
    using assms(3) by auto
  show ?thesis
    unfolding collect_products_def s
    by (simp only: collect_pages_good [OF g]
          collect_pages_diverge [OF fetch_and_parse_never [of http p, OF assms(4)]]) simp
qed

lemma legacy_ceiling:
  assumes "\<forall>p\<in>{1..50}. fetch_and_parse http p = Some (tries p, Inr (recs p)) \<and> recs p \<noteq> []"
  shows "collect_products http =
           Some (map (\<lambda>p. (p, tries p)) [1..<51], Inr (concat (map recs [1..<51])))"
proof -
  have g: "\<forall>p\<in>set [1..<51]. fetch_and_parse http p = Some (tries p, Inr (recs p)) \<and> recs p \<noteq> []"
    using assms by auto
  from collect_pages_good [OF g, of "[]" "[]"] show ?thesis
    unfolding collect_products_def by simp
qed

lemma parse_pages:
  "get_products_on_page one_page = Inr [shoe_card]"
  "get_products_on_page two_page = Inr [shoe_card, shoe_card]"
  "get_products_on_page empty_page = Inr []"
  by (simp_all add: get_products_on_page_def one_page_def two_page_def empty_page_def ebind_def
        card_of_shoe_item)

lemma legacy_shoe_product: "legacy_product_of_item (JObj shoe_fields) = Inr shoe_product"
proof -
  have "map_of shoe_fields ''feedbackPoints'' = None" "map_of shoe_fields ''sale'' = None"
    "map_of shoe_fields ''supplier'' = None" "map_of shoe_fields ''supplierRating'' = None"
    "map_of shoe_fields ''reviewRating'' = None" "map_of shoe_fields ''promoTextCard'' = None"
    "map_of shoe_fields ''promoTextCat'' = None" "map_of shoe_fields ''id'' = Some (JInt 7)"
    "map_of shoe_fields ''name'' = Some (JStr ''Boot'')"
    "map_of shoe_fields ''brand'' = Some (JStr ''Acme'')"
    "map_of shoe_fields ''rating'' = Some (JInt 5)"
    "map_of shoe_fields ''feedbacks'' = Some (JInt 12)"
    "map_of shoe_fields ''priceU'' = Some (JInt 123456)"
    "map_of shoe_fields ''salePriceU'' = Some (JInt 99999)"
    by (simp_all add: shoe_fields_def)
  then show ?thesis
    by (simp add: legacy_product_of_item_def ebind_def major_units_123456
          major_units_99999 shoe_product_def dict_get_def)
qed

lemma legacy_parse_pages:
  "legacy_extract_product_data one_page = Inr [shoe_product]"
  "legacy_extract_product_data empty_page = Inr []"
  "legacy_extract_product_data (JObj [(''error'', JStr ''bad request'')]) = Inl (KeyError ''data'')"
  by (simp_all add: legacy_extract_product_data_def one_page_def empty_page_def ebind_def
        legacy_shoe_product)


lemma stable_page_records:
  "page_records two_pages url = Inr (if url = 1 then [shoe_card] else [])"
  "page_records second_times_out url = (if url = 1 then Inr [shoe_card] else Inl ConnectTimeout)"
  "page_records endless url = Inr [shoe_card]"
  "page_records ends_at_100 url =
     Inr (if url = 1 then [shoe_card, shoe_card] else if url = 100 then [] else [shoe_card])"
  by (simp_all add: page_records_def two_pages_def second_times_out_def endless_def
        ends_at_100_def ebind_def parse_pages)

lemma scrape_first: "http page 0 = Inr data \<Longrightarrow> scrape_page http page = Some (1, data)"
  unfolding scrape_page_def using retry_from_found [of "http page" 0 0 data] by simp

lemma legacy_fetch_and_parse:
  "fetch_and_parse legacy_two_pages page =
     Some (if page = 1 then 3 else 1, Inr (if page = 1 then [shoe_product] else []))"
  "fetch_and_parse legacy_error_payload page =
     Some (1, if page = 1 then Inr [shoe_product] else Inl (KeyError ''data''))"
  "fetch_and_parse legacy_second_fails page =
     (if page = 1 then Some (1, Inr [shoe_product]) else None)"
  "fetch_and_parse legacy_endless page = Some (1, Inr [shoe_product])"
  "fetch_and_parse always_fails page = None"
proof -
  have "retry_from (legacy_two_pages 1) 0 = Some (Suc (0 + 2), one_page)"
    by (rule retry_from_found) (auto simp: legacy_two_pages_def)
  then have "fetch_and_parse legacy_two_pages 1 = Some (3, Inr [shoe_product])"
    by (simp add: fetch_and_parse_def scrape_page_def legacy_parse_pages)
  moreover have "page \<noteq> 1 \<Longrightarrow> fetch_and_parse legacy_two_pages page = Some (1, Inr [])"
    by (simp add: fetch_and_parse_def scrape_first legacy_two_pages_def legacy_parse_pages)
  ultimately show "fetch_and_parse legacy_two_pages page =
     Some (if page = 1 then 3 else 1, Inr (if page = 1 then [shoe_product] else []))"
    by simp
  show "fetch_and_parse legacy_error_payload page =
     Some (1, if page = 1 then Inr [shoe_product] else Inl (KeyError ''data''))"
    by (simp add: fetch_and_parse_def scrape_first legacy_error_payload_def legacy_parse_pages)
  show "fetch_and_parse legacy_second_fails page =
     (if page = 1 then Some (1, Inr [shoe_product]) else None)"
    by (simp add: fetch_and_parse_never legacy_second_fails_def)
       (simp add: fetch_and_parse_def scrape_first legacy_second_fails_def legacy_parse_pages)
  show "fetch_and_parse legacy_endless page = Some (1, Inr [shoe_product])"
    by (simp add: fetch_and_parse_def scrape_first legacy_endless_def legacy_parse_pages)
  show "fetch_and_parse always_fails page = None"
    by (simp add: fetch_and_parse_never always_fails_def)
qed

text \<open>
  Claim C4. Let \<open>k\<close> be below the page ceiling (100 in the stable loop, 50 in the
  legacy loop), let pages 1 to \<open>k\<close> each parse to a non-empty list and page
  \<open>k + 1\<close> to the empty list. Then the loop fetches exactly the pages 1 to \<open>k + 1\<close>,
  each once and in this order, ends without an exception, and leaves the records of
  pages 1 to \<open>k\<close> in page order and, within a page, in the page's order; their number
  is the sum of the per-page counts.
\<close>

theorem harvest_until_empty:
  "(k < 100
    \<and> (\<forall>p\<in>{1..k}. page_records http (build p) = Inr (recs p) \<and> recs p \<noteq> [])
    \<and> page_records http (build (Suc k)) = Inr []
    \<longrightarrow> get_all_products_in_category build http [] =
          (map build [1..<Suc (Suc k)], concat (map recs [1..<Suc k]), None)
        \<and> length (map build [1..<Suc (Suc k)]) = k + 1
        \<and> length (concat (map recs [1..<Suc k])) = (\<Sum>p\<leftarrow>[1..<Suc k]. length (recs p)))
   \<and> (k < 50
      \<and> (\<forall>p\<in>{1..k}. fetch_and_parse lhttp p = Some (tries p, Inr (lrecs p)) \<and> lrecs p \<noteq> [])
      \<and> fetch_and_parse lhttp (Suc k) = Some (tries (Suc k), Inr [])
      \<longrightarrow> collect_products lhttp =
            Some (map (\<lambda>p. (p, tries p)) [1..<Suc (Suc k)], Inr (concat (map lrecs [1..<Suc k])))
          \<and> length (map (\<lambda>p. (p, tries p)) [1..<Suc (Suc k)]) = k + 1
          \<and> length (concat (map lrecs [1..<Suc k])) = (\<Sum>p\<leftarrow>[1..<Suc k]. length (lrecs p)))"
proof (intro conjI impI)
  assume a: "k < 100
    \<and> (\<forall>p\<in>{1..k}. page_records http (build p) = Inr (recs p) \<and> recs p \<noteq> [])
    \<and> page_records http (build (Suc k)) = Inr []"
  then show "get_all_products_in_category build http [] =
          (map build [1..<Suc (Suc k)], concat (map recs [1..<Suc k]), None)"
    using stable_until_empty [of k http build recs "[]"] by simp
next
  assume a: "k < 50
      \<and> (\<forall>p\<in>{1..k}. fetch_and_parse lhttp p = Some (tries p, Inr (lrecs p)) \<and> lrecs p \<noteq> [])
      \<and> fetch_and_parse lhttp (Suc k) = Some (tries (Suc k), Inr [])"
  then show "collect_products lhttp =
            Some (map (\<lambda>p. (p, tries p)) [1..<Suc (Suc k)], Inr (concat (map lrecs [1..<Suc k])))"
    using legacy_until_empty [of k lhttp tries lrecs "tries (Suc k)"] by simp
qed (simp_all add: length_concat comp_def)

theorem harvest_until_empty_witness:
  "(1::nat) < 100
   \<and> page_records two_pages 1 = Inr [shoe_card]
   \<and> page_records two_pages (Suc 1) = Inr []
   \<and> get_all_products_in_category (\<lambda>p. p) two_pages [] = ([1, 2], [shoe_card], None)
   \<and> (1::nat) < 50
   \<and> fetch_and_parse legacy_two_pages 1 = Some (3, Inr [shoe_product])
   \<and> fetch_and_parse legacy_two_pages (Suc 1) = Some (1, Inr [])
   \<and> collect_products legacy_two_pages = Some ([(1, 3), (2, 1)], Inr [shoe_product])"
proof -
  have s: "\<forall>p\<in>{1..1::nat}. page_records two_pages ((\<lambda>p. p) p) = Inr ((\<lambda>_. [shoe_card]) p)
      \<and> (\<lambda>_. [shoe_card]) p \<noteq> []"
    by (simp add: stable_page_records)
  have l: "\<forall>p\<in>{1..1::nat}. fetch_and_parse legacy_two_pages p =
        Some ((\<lambda>p. if p = 1 then 3 else 1) p, Inr ((\<lambda>_. [shoe_product]) p))
      \<and> (\<lambda>_. [shoe_product]) p \<noteq> []"
    by (simp add: legacy_fetch_and_parse)
  have u: "[1..<Suc (Suc 1)] = [1, 2]" "[1..<Suc 1] = [1]" by (simp_all add: upt_rec)
  from harvest_until_empty [of 1 two_pages "\<lambda>p. p" "\<lambda>_. [shoe_card]" legacy_two_pages
      "\<lambda>p. if p = 1 then 3 else 1" "\<lambda>_. [shoe_product]"] s l
  have "get_all_products_in_category (\<lambda>p. p) two_pages [] = ([1, 2], [shoe_card], None)"
    and "collect_products legacy_two_pages = Some ([(1, 3), (2, 1)], Inr [shoe_product])"
    by (simp_all add: stable_page_records legacy_fetch_and_parse u)
  then show ?thesis by (simp add: stable_page_records legacy_fetch_and_parse)
qed

lemma legacy_two_page: "legacy_extract_product_data two_page = Inr [shoe_product, shoe_product]"
  by (simp add: legacy_extract_product_data_def two_page_def ebind_def legacy_shoe_product)

lemma legacy_ends_at_50_parse:
  "fetch_and_parse legacy_ends_at_50 page =
     Some (1, Inr (if page = 1 then [shoe_product, shoe_product]
                   else if page = 50 then [] else [shoe_product]))"
  by (simp add: fetch_and_parse_def scrape_first legacy_ends_at_50_def legacy_parse_pages
        legacy_two_page)

text \<open>
  Claim C5, as amended. When no page parses to the empty list, the stable loop
  fetches exactly the pages 1 to 100 and the legacy loop exactly the pages 1 to 50
  (the ceilings are fixed in the code), in order; the loop ends without an exception
  and leaves the records of all these pages in page order. What the caller receives
  (the accumulated records; the stable method returns \<^verbatim>\<open>None\<close>) does not say
  whether the ceiling or an empty page ended the loop.
\<close>

theorem harvest_ceiling:
  "((\<forall>p\<in>{1..100}. page_records http (build p) = Inr (recs p) \<and> recs p \<noteq> [])
    \<longrightarrow> get_all_products_in_category build http [] =
          (map build [1..<101], concat (map recs [1..<101]), None)
        \<and> length (map build [1..<101]) = 100)
   \<and> ((\<forall>p\<in>{1..50}. fetch_and_parse lhttp p = Some (tries p, Inr (lrecs p)) \<and> lrecs p \<noteq> [])
      \<longrightarrow> collect_products lhttp =
            Some (map (\<lambda>p. (p, tries p)) [1..<51], Inr (concat (map lrecs [1..<51])))
          \<and> length (map (\<lambda>p. (p, tries p)) [1..<51]) = 50)"
  using stable_ceiling [of http build recs "[]"] legacy_ceiling [of lhttp tries lrecs]
  by simp

theorem harvest_ceiling_witness:
  "(\<forall>p. page_records endless p = Inr [shoe_card])
   \<and> get_all_products_in_category (\<lambda>p. p) endless [] =
       ([1..<101], replicate 100 shoe_card, None)
   \<and> (\<forall>p. fetch_and_parse legacy_endless p = Some (1, Inr [shoe_product]))
   \<and> collect_products legacy_endless =
       Some (map (\<lambda>p. (p, 1)) [1..<51], Inr (replicate 50 shoe_product))"
  using harvest_ceiling [of endless "\<lambda>p. p" "\<lambda>_. [shoe_card]" legacy_endless "\<lambda>_. 1"
      "\<lambda>_. [shoe_product]"]
  by (simp add: stable_page_records legacy_fetch_and_parse map_replicate_const)

lemma concat_singletons: "concat (map (\<lambda>_. [c]) xs) = replicate (length xs) c"
  by (induction xs) simp_all

lemma two_then_ones:
  fixes r :: "nat \<Rightarrow> 'a list"
  assumes "r 1 = [c, c]" "\<And>p. 2 \<le> p \<Longrightarrow> p < Suc n \<Longrightarrow> r p = [c]" "1 \<le> n"
  shows "concat (map r [1..<Suc n]) = replicate (Suc n) c"
proof -
  have "(1::nat) < Suc n" using assms(3) by simp
  then have "[1..<Suc n] = 1 # [Suc 1..<Suc n]" by (rule upt_conv_Cons)
  then have split: "[1..<Suc n] = 1 # [2..<Suc n]" by (simp only: Suc_1)
  have ones: "map r [2..<Suc n] = map (\<lambda>_. [c]) [2..<Suc n]"
    by (rule map_cong) (auto intro: assms(2))
  have last: "[c, c] @ replicate (length [2..<Suc n]) c = replicate (Suc n) c"
  proof -
    from assms(3) obtain m where n: "n = Suc m" by (cases n) auto
    then have "length [2..<Suc n] = m" by (simp only: length_upt)
    then show ?thesis by (simp only: n) simp
  qed
  have "concat (map r [1..<Suc n]) = concat (map r (1 # [2..<Suc n]))" by (simp only: split)
  also have "\<dots> = r 1 @ concat (map r [2..<Suc n])" by (simp only: list.map concat.simps)
  also have "\<dots> = [c, c] @ concat (map (\<lambda>_. [c]) [2..<Suc n])" by (simp only: assms(1) ones)
  also have "\<dots> = [c, c] @ replicate (length [2..<Suc n]) c" by (simp only: concat_singletons)
  also have "\<dots> = replicate (Suc n) c" by (rule last)
  finally show ?thesis .
qed

text \<open>
  Claim C5 as stated fails: a run that stops at the ceiling and a run that stops at
  an empty page hand the caller the same result, in either program.
\<close>

theorem harvest_ceiling_counterexample:
  "(\<forall>p. page_records endless p = Inr [shoe_card])
   \<and> page_records ends_at_100 100 = Inr []
   \<and> snd (get_all_products_in_category (\<lambda>p. p) endless []) = (replicate 100 shoe_card, None)
   \<and> snd (get_all_products_in_category (\<lambda>p. p) ends_at_100 []) = (replicate 100 shoe_card, None)
   \<and> (\<forall>p. fetch_and_parse legacy_endless p = Some (1, Inr [shoe_product]))
   \<and> fetch_and_parse legacy_ends_at_50 50 = Some (1, Inr [])
   \<and> map_option snd (collect_products legacy_endless) = Some (Inr (replicate 50 shoe_product))
   \<and> map_option snd (collect_products legacy_ends_at_50) = Some (Inr (replicate 50 shoe_product))"
proof -
  have a: "snd (get_all_products_in_category (\<lambda>p. p) endless []) = (replicate 100 shoe_card, None)"
    using stable_ceiling [of endless "\<lambda>p. p" "\<lambda>_. [shoe_card]" "[]"]
    by (simp add: stable_page_records map_replicate_const)
  define r where "r = (\<lambda>p::nat. if p = 1 then [shoe_card, shoe_card] else [shoe_card])"
  have r: "concat (map r [1..<Suc 99]) = replicate (Suc 99) shoe_card"
    by (rule two_then_ones) (simp_all add: r_def)
  have "get_all_products_in_category (\<lambda>p. p) ends_at_100 [] =
       (map (\<lambda>p. p) [1..<Suc (Suc 99)], [] @ concat (map r [1..<Suc 99]), None)"
    by (rule stable_until_empty) (simp_all add: stable_page_records r_def)
  then have b: "snd (get_all_products_in_category (\<lambda>p. p) ends_at_100 []) =
      (replicate 100 shoe_card, None)"
    by (simp only: r) simp
  have c: "map_option snd (collect_products legacy_endless) = Some (Inr (replicate 50 shoe_product))"
    using legacy_ceiling [of legacy_endless "\<lambda>_. 1" "\<lambda>_. [shoe_product]"]
    by (simp add: legacy_fetch_and_parse map_replicate_const)
  define l where "l = (\<lambda>p::nat. if p = 1 then [shoe_product, shoe_product] else [shoe_product])"
  have l: "concat (map l [1..<Suc 49]) = replicate (Suc 49) shoe_product"
    by (rule two_then_ones) (simp_all add: l_def)
  have "collect_products legacy_ends_at_50 =
       Some (map (\<lambda>p. (p, 1)) [1..<Suc 49] @ [(Suc 49, 1)], Inr (concat (map l [1..<Suc 49])))"
    by (rule legacy_until_empty) (simp_all add: legacy_ends_at_50_parse l_def)
  then have d: "map_option snd (collect_products legacy_ends_at_50) =
      Some (Inr (replicate 50 shoe_product))"
    by (simp only: l) simp
  from a b c d show ?thesis
    by (simp add: stable_page_records legacy_fetch_and_parse legacy_ends_at_50_parse)
qed

text \<open>
  Claim C1, as amended. Stable version: when page \<open>p\<close> is reached and its request or
  the parsing of its response raises an exception, of whatever kind, the loop ends
  with that exception; the pages requested are exactly 1 to \<open>p\<close>, each once, and the
  records of the earlier pages stay accumulated. Legacy version: when the body
  fetched for page \<open>p\<close> is rejected by the parser, the loop ends with that exception
  and no later page is fetched; but when the request itself raises, it is repeated,
  and if every request for page \<open>p\<close> raises the method never returns.
\<close>

theorem harvest_abort:
  "(1 \<le> p \<and> p \<le> 100
    \<and> (\<forall>q\<in>{1..<p}. page_records http (build q) = Inr (recs q) \<and> recs q \<noteq> [])
    \<and> page_records http (build p) = Inl e
    \<longrightarrow> get_all_products_in_category build http [] =
          (map build [1..<Suc p], concat (map recs [1..<p]), Some e))
   \<and> (1 \<le> p \<and> p \<le> 50
      \<and> (\<forall>q\<in>{1..<p}. fetch_and_parse lhttp q = Some (tries q, Inr (lrecs q)) \<and> lrecs q \<noteq> [])
      \<longrightarrow> (fetch_and_parse lhttp p = Some (n, Inl e)
            \<longrightarrow> collect_products lhttp = Some (map (\<lambda>q. (q, tries q)) [1..<p] @ [(p, n)], Inl e))
          \<and> ((\<forall>i. \<exists>x. lhttp p i = Inl x) \<longrightarrow> collect_products lhttp = None))"
  using stable_until_raise [of p http build recs e "[]"]
        legacy_until_raise [of p lhttp tries lrecs n e]
        legacy_until_diverge [of p lhttp tries lrecs]
  by simp

theorem harvest_abort_witness:
  "page_records second_times_out 1 = Inr [shoe_card]
   \<and> page_records second_times_out 2 = Inl ConnectTimeout
   \<and> get_all_products_in_category (\<lambda>p. p) second_times_out [] =
       ([1, 2], [shoe_card], Some ConnectTimeout)
   \<and> fetch_and_parse legacy_error_payload 1 = Some (1, Inr [shoe_product])
   \<and> fetch_and_parse legacy_error_payload 2 = Some (1, Inl (KeyError ''data''))
   \<and> collect_products legacy_error_payload = Some ([(1, 1), (2, 1)], Inl (KeyError ''data''))
   \<and> fetch_and_parse legacy_second_fails 1 = Some (1, Inr [shoe_product])
   \<and> (\<forall>i. legacy_second_fails 2 i = Inl ValueError)
   \<and> collect_products legacy_second_fails = None"
proof -
  have u: "[Suc 0..<3] = [Suc 0, 2]" "[Suc 0..<2] = [Suc 0]" by (simp_all add: upt_rec)
  from harvest_abort [of 2 second_times_out "\<lambda>p. p" "\<lambda>_. [shoe_card]" ConnectTimeout
      legacy_error_payload "\<lambda>_. 1" "\<lambda>_. [shoe_product]" 1]
  have a: "get_all_products_in_category (\<lambda>p. p) second_times_out [] =
       ([1, 2], [shoe_card], Some ConnectTimeout)"
    by (simp add: stable_page_records u)
  from harvest_abort [of 2 second_times_out "\<lambda>p. p" "\<lambda>_. [shoe_card]" "KeyError ''data''"
      legacy_error_payload "\<lambda>_. 1" "\<lambda>_. [shoe_product]" 1]
  have b: "collect_products legacy_error_payload = Some ([(1, 1), (2, 1)], Inl (KeyError ''data''))"
    by (simp add: legacy_fetch_and_parse u)
  have f: "\<forall>i. legacy_second_fails 2 i = Inl ValueError" by (simp add: legacy_second_fails_def)
  from harvest_abort [of 2 second_times_out "\<lambda>p. p" "\<lambda>_. [shoe_card]" ConnectTimeout
      legacy_second_fails "\<lambda>_. 1" "\<lambda>_. [shoe_product]" 1] f
  have c: "collect_products legacy_second_fails = None"
    by (simp add: legacy_fetch_and_parse)
  from a b c f show ?thesis by (simp add: stable_page_records legacy_fetch_and_parse)
qed

text \<open>
  Claim C1 as stated fails on the legacy loop: with a request that fails on every
  attempt the harvest is not aborted; it never returns.
\<close>

theorem harvest_abort_counterexample:
  "(\<forall>page i. always_fails page i = Inl ValueError) \<and> collect_products always_fails = None"
proof -
  have "\<forall>i. \<exists>x. always_fails 1 i = Inl x" by (simp add: always_fails_def)
  then have "fetch_and_parse always_fails 1 = None" by (rule fetch_and_parse_never)
  then have "collect_pages always_fails (1 # [2..<51]) [] = None" by (rule collect_pages_diverge)
  moreover have "[1..<51] = 1 # [2..<51]" by (simp add: upt_conv_Cons)
  ultimately show ?thesis by (simp add: collect_products_def always_fails_def)
qed

section \<open>Properties of the sales loop\<close>

lemma sales_loop_ok:
  "item_ok http i pcard \<Longrightarrow>
     sales_loop http i (pcard # pcards) =
       (case sales_loop http (Suc i) pcards of
          (rest, raised) \<Rightarrow> (enriched http i pcard # rest, raised))"
  by (cases "sold_quantity http i pcard")
     (auto simp: item_ok_def enriched_def split: prod.splits)

lemma sales_loop_fail:
  "sold_quantity http i pcard = Inl e \<Longrightarrow> e \<noteq> ConnectTimeout \<Longrightarrow>
     sales_loop http i (pcard # pcards) = (pcard # pcards, Some e)"
  by (cases e) auto

lemma sales_loop_prefix:
  "\<forall>j<length pre. item_ok http (i + j) (pre ! j) \<Longrightarrow>
     sales_loop http i (pre @ rest) =
       (case sales_loop http (i + length pre) rest of
          (tail, raised) \<Rightarrow> (map (\<lambda>(j, c). enriched http j c) (enumerate i pre) @ tail, raised))"
proof (induction pre arbitrary: i)
  case Nil
  show ?case by simp
next
  case (Cons c pre)
  from Cons.prems have c: "item_ok http i c" by force
  have "\<forall>j<length pre. item_ok http (Suc i + j) (pre ! j)"
  proof (intro allI impI)
    fix j assume "j < length pre"
    then have "Suc j < length (c # pre)" by simp
    with Cons.prems have "item_ok http (i + Suc j) ((c # pre) ! Suc j)" by blast
    then show "item_ok http (Suc i + j) (pre ! j)" by simp
  qed
  from Cons.IH [OF this] c show ?case
    by (simp add: sales_loop_ok del: sales_loop.simps split: prod.splits)
qed

lemma get_sales_data_all_ok:
  assumes "\<forall>j<length pcards. item_ok http j (pcards ! j)"
  shows "get_sales_data http pcards =
           (map (\<lambda>(j, c). enriched http j c) (enumerate 0 pcards), None)"
  using sales_loop_prefix [of pcards http 0 "[]"] assms by (simp add: get_sales_data_def)

lemma get_sales_data_abort:
  assumes "k < length pcards" "\<forall>j<k. item_ok http j (pcards ! j)"
    and "sold_quantity http k (pcards ! k) = Inl e" "e \<noteq> ConnectTimeout"
  shows "get_sales_data http pcards =
           (map (\<lambda>(j, c). enriched http j c) (enumerate 0 (take k pcards)) @ drop k pcards, Some e)"
proof -
  have split: "pcards = take k pcards @ pcards ! k # drop (Suc k) pcards"
    using assms(1) by (simp add: id_take_nth_drop)
  have len: "length (take k pcards) = k" using assms(1) by simp
  have pre: "\<forall>j<length (take k pcards). item_ok http (0 + j) (take k pcards ! j)"
    using assms(2) by simp
  have "sales_loop http 0 (take k pcards @ pcards ! k # drop (Suc k) pcards) =
       (case sales_loop http (0 + length (take k pcards)) (pcards ! k # drop (Suc k) pcards) of
          (tail, raised) \<Rightarrow>
            (map (\<lambda>(j, c). enriched http j c) (enumerate 0 (take k pcards)) @ tail, raised))"
    by (rule sales_loop_prefix [OF pre])
  also have "sales_loop http (0 + length (take k pcards)) (pcards ! k # drop (Suc k) pcards) =
      (pcards ! k # drop (Suc k) pcards, Some e)"
    using assms(3,4) by (simp only: len add_0) (rule sales_loop_fail)
  finally show ?thesis
    using assms(1) by (simp add: get_sales_data_def split [symmetric] Cons_nth_drop_Suc)
qed


lemma sold_quantity_examples:
  "sold_quantity sales_answer i c = Inr (JInt (10 + int i))"
  "sold_quantity sales_connect_timeout i c =
     (if i = 1 then Inl ConnectTimeout else Inr (JInt (10 + int i)))"
  "sold_quantity sales_read_timeout i c =
     (if i = 1 then Inl ReadTimeout else Inr (JInt (10 + int i)))"
  "sold_quantity sales_empty_answer i c =
     (if i = 1 then Inl IndexError else Inr (JInt (10 + int i)))"
  by (simp_all add: sold_quantity_def sales_answer_def sales_connect_timeout_def
        sales_read_timeout_def sales_empty_answer_def ebind_def)

text \<open>
  Claim C8, as amended. The loop sends one follow-up request per record, in order.
  While every item either yields a quantity or fails with a connect timeout, all
  \<open>N\<close> records are returned, each with its quantity or, after a connect timeout,
  with the sentinel \<^verbatim>\<open>'no data'\<close>. The first item that fails in any other way ends
  the loop with that exception: the records before it are enriched, that record and
  all later ones are left as they were.
\<close>

theorem enrich_items:
  "((\<forall>j<length pcards. item_ok http j (pcards ! j)) \<longrightarrow>
      snd (get_sales_data http pcards) = None
      \<and> length (fst (get_sales_data http pcards)) = length pcards
      \<and> (\<forall>j<length pcards. fst (get_sales_data http pcards) ! j = enriched http j (pcards ! j)))
   \<and> (k < length pcards \<and> (\<forall>j<k. item_ok http j (pcards ! j))
        \<and> sold_quantity http k (pcards ! k) = Inl e \<and> e \<noteq> ConnectTimeout \<longrightarrow>
      snd (get_sales_data http pcards) = Some e
      \<and> length (fst (get_sales_data http pcards)) = length pcards
      \<and> (\<forall>j<k. fst (get_sales_data http pcards) ! j = enriched http j (pcards ! j))
      \<and> (\<forall>j. k \<le> j \<and> j < length pcards \<longrightarrow> fst (get_sales_data http pcards) ! j = pcards ! j))
   \<and> (sold_quantity http i c = Inl ConnectTimeout \<longrightarrow>
        Selled (enriched http i c) = Some (JStr ''no data''))
   \<and> (sold_quantity http i c = Inr qnt \<longrightarrow> Selled (enriched http i c) = Some qnt)"
proof (intro conjI impI)
  assume a: "\<forall>j<length pcards. item_ok http j (pcards ! j)"
  note r = get_sales_data_all_ok [OF a]
  show "snd (get_sales_data http pcards) = None" by (simp add: r)
  show "length (fst (get_sales_data http pcards)) = length pcards" by (simp add: r)
  show "\<forall>j<length pcards. fst (get_sales_data http pcards) ! j = enriched http j (pcards ! j)"
    by (simp add: r nth_enumerate_eq)
next
  assume a: "k < length pcards \<and> (\<forall>j<k. item_ok http j (pcards ! j))
        \<and> sold_quantity http k (pcards ! k) = Inl e \<and> e \<noteq> ConnectTimeout"
  then have r: "get_sales_data http pcards =
      (map (\<lambda>(j, c). enriched http j c) (enumerate 0 (take k pcards)) @ drop k pcards, Some e)"
    by (intro get_sales_data_abort) simp_all
  from a have k: "k < length pcards" by simp
  show "snd (get_sales_data http pcards) = Some e" by (simp add: r)
  show "length (fst (get_sales_data http pcards)) = length pcards" using k by (simp add: r)
  show "\<forall>j<k. fst (get_sales_data http pcards) ! j = enriched http j (pcards ! j)"
    using k by (simp add: r nth_append nth_enumerate_eq)
  show "\<forall>j. k \<le> j \<and> j < length pcards \<longrightarrow> fst (get_sales_data http pcards) ! j = pcards ! j"
    using k by (auto simp: r nth_append)
qed (simp_all add: enriched_def)

lemma three_cards_nth:
  "length three_cards = 3" "three_cards ! 0 = shoe_card"
  "three_cards ! Suc 0 = shoe_card\<lparr>ID := JInt 8\<rparr>" "three_cards ! 2 = shoe_card\<lparr>ID := JInt 9\<rparr>"
  by (simp_all add: three_cards_def)

theorem enrich_items_witness:
  "item_ok sales_connect_timeout 0 (three_cards ! 0)
   \<and> item_ok sales_connect_timeout 1 (three_cards ! 1)
   \<and> item_ok sales_connect_timeout 2 (three_cards ! 2)
   \<and> sold_quantity sales_connect_timeout 1 (three_cards ! 1) = Inl ConnectTimeout
   \<and> snd (get_sales_data sales_connect_timeout three_cards) = None
   \<and> length (fst (get_sales_data sales_connect_timeout three_cards)) = 3
   \<and> fst (get_sales_data sales_connect_timeout three_cards) ! 0 =
       shoe_card\<lparr>Selled := Some (JInt 10)\<rparr>
   \<and> fst (get_sales_data sales_connect_timeout three_cards) ! 1 =
       shoe_card\<lparr>ID := JInt 8, Selled := Some (JStr ''no data'')\<rparr>
   \<and> fst (get_sales_data sales_connect_timeout three_cards) ! 2 =
       shoe_card\<lparr>ID := JInt 9, Selled := Some (JInt 12)\<rparr>
   \<and> (1::nat) < length three_cards
   \<and> item_ok sales_read_timeout 0 (three_cards ! 0)
   \<and> sold_quantity sales_read_timeout 1 (three_cards ! 1) = Inl ReadTimeout
   \<and> ReadTimeout \<noteq> ConnectTimeout
   \<and> snd (get_sales_data sales_read_timeout three_cards) = Some ReadTimeout
   \<and> length (fst (get_sales_data sales_read_timeout three_cards)) = 3
   \<and> fst (get_sales_data sales_read_timeout three_cards) ! 0 =
       shoe_card\<lparr>Selled := Some (JInt 10)\<rparr>
   \<and> fst (get_sales_data sales_read_timeout three_cards) ! 1 = shoe_card\<lparr>ID := JInt 8\<rparr>
   \<and> fst (get_sales_data sales_read_timeout three_cards) ! 2 = shoe_card\<lparr>ID := JInt 9\<rparr>"
proof -
  have ok: "\<forall>j<length three_cards. item_ok sales_connect_timeout j (three_cards ! j)"
    by (simp add: item_ok_def sold_quantity_examples)
  have ok': "\<forall>j<1. item_ok sales_read_timeout j (three_cards ! j)"
    by (simp add: item_ok_def sold_quantity_examples)
  have f: "sold_quantity sales_read_timeout 1 (three_cards ! 1) = Inl ReadTimeout"
    by (simp add: sold_quantity_examples)
  from enrich_items [of three_cards sales_connect_timeout 1 ReadTimeout 1 "three_cards ! 1" JNull] ok
  have a: "snd (get_sales_data sales_connect_timeout three_cards) = None"
    "length (fst (get_sales_data sales_connect_timeout three_cards)) = length three_cards"
    "\<forall>j<length three_cards. fst (get_sales_data sales_connect_timeout three_cards) ! j =
        enriched sales_connect_timeout j (three_cards ! j)"
    by blast+
  from a(3) have a0: "fst (get_sales_data sales_connect_timeout three_cards) ! 0 =
        enriched sales_connect_timeout 0 (three_cards ! 0)"
    and a1: "fst (get_sales_data sales_connect_timeout three_cards) ! 1 =
        enriched sales_connect_timeout 1 (three_cards ! 1)"
    and a2: "fst (get_sales_data sales_connect_timeout three_cards) ! 2 =
        enriched sales_connect_timeout 2 (three_cards ! 2)"
    by (simp_all add: three_cards_nth(1))
  from enrich_items [of three_cards sales_read_timeout 1 ReadTimeout 1 "three_cards ! 1" JNull] ok' f
  have b: "snd (get_sales_data sales_read_timeout three_cards) = Some ReadTimeout"
    "length (fst (get_sales_data sales_read_timeout three_cards)) = length three_cards"
    "\<forall>j<1. fst (get_sales_data sales_read_timeout three_cards) ! j =
        enriched sales_read_timeout j (three_cards ! j)"
    "\<forall>j. 1 \<le> j \<and> j < length three_cards \<longrightarrow>
        fst (get_sales_data sales_read_timeout three_cards) ! j = three_cards ! j"
    by (simp_all add: three_cards_nth(1))
  from b(3) have b0: "fst (get_sales_data sales_read_timeout three_cards) ! 0 =
        enriched sales_read_timeout 0 (three_cards ! 0)" by simp
  from b(4) have b1: "fst (get_sales_data sales_read_timeout three_cards) ! 1 = three_cards ! 1"
    and b2: "fst (get_sales_data sales_read_timeout three_cards) ! 2 = three_cards ! 2"
    by (simp_all add: three_cards_nth(1))
  from a(1,2) a0 a1 a2 b(1,2) b0 b1 b2 show ?thesis
    by (simp add: item_ok_def sold_quantity_examples three_cards_nth enriched_def)
qed

text \<open>
  Claim C8 as stated fails: a read timeout, or an empty answer, on the second of three
  items is not replaced by the sentinel; the exception leaves the method and the third
  item is never enriched.
\<close>

theorem enrich_items_counterexample:
  "sold_quantity sales_read_timeout 1 (three_cards ! 1) = Inl ReadTimeout
   \<and> get_sales_data sales_read_timeout three_cards =
       ([shoe_card\<lparr>Selled := Some (JInt 10)\<rparr>, shoe_card\<lparr>ID := JInt 8\<rparr>,
         shoe_card\<lparr>ID := JInt 9\<rparr>], Some ReadTimeout)
   \<and> sales_empty_answer 1 (JInt 8) = Inr (JArr [])
   \<and> get_sales_data sales_empty_answer three_cards =
       ([shoe_card\<lparr>Selled := Some (JInt 10)\<rparr>, shoe_card\<lparr>ID := JInt 8\<rparr>,
         shoe_card\<lparr>ID := JInt 9\<rparr>], Some IndexError)
   \<and> Selled (shoe_card\<lparr>ID := JInt 9\<rparr>) = None"
  by (simp add: get_sales_data_def three_cards_def sold_quantity_examples sales_empty_answer_def
        shoe_card_def)

end
